theory Spec2Isabelle
  imports Complex_Main "HOL-Library.Word"
begin

unbundle bit_operations_syntax

section \<open>Surface Nets: the cube-edge and edge-crossing tables\<close>

text \<open>
  \<^verbatim>\<open>SurfaceNets.init\<close> fills two typed arrays. All values stay far below
  \<open>2 ^ 31\<close> (corner indices below 8, masks below \<open>2 ^ 12\<close>), so the 32-bit
  integers of the source are modelled as natural numbers with the bit operations of HOL:
  \<open>i ^ j\<close> is \<open>i XOR j\<close>, \<open>1 << c\<close> is \<open>push_bit c 1\<close>, \<open>j >> 1\<close> is \<open>drop_bit 1 j\<close>.
\<close>

record surface_nets =
  cubeEdges :: "nat list"
  edgeTable :: "nat list"

text \<open>
  The first loop nest of \<open>init\<close>: \<open>i\<close> runs over the 8 corners, \<open>j\<close> over \<open>1, 2, 4\<close>
  (\<open>j <<= 1\<close> while \<open>j <= 4\<close>); the pair \<open>(i, i ^ j)\<close> is written at positions
  \<open>k\<close>, \<open>k + 1\<close> of the 24-entry array when \<open>i <= p\<close>.
\<close>

definition edge_step :: "nat \<Rightarrow> nat \<Rightarrow> nat \<times> nat list \<Rightarrow> nat \<times> nat list" where
  "edge_step i j = (\<lambda>(k, ce).
     let p = i XOR j in
     if i \<le> p then (k + 2, ce[k := i, k + 1 := p]) else (k, ce))"

definition init_cubeEdges :: "nat list" where
  "init_cubeEdges =
     snd (fold (\<lambda>i. fold (edge_step i) (map (\<lambda>e. push_bit e 1) [0..<3]))
            [0..<8] (0, replicate 24 0))"

text \<open>
  The second loop nest: for each of the 256 corner masks \<open>i\<close>, \<open>j\<close> runs over
  \<open>0, 2, ..., 22\<close> and sets bit \<open>j >> 1\<close> of \<open>em\<close> when the two corners of the edge
  stored at \<open>j\<close>, \<open>j + 1\<close> differ in \<open>i\<close>.
\<close>

definition cross_step :: "nat list \<Rightarrow> nat \<Rightarrow> nat \<Rightarrow> nat \<Rightarrow> nat" where
  "cross_step ce i j em =
     (let a = (i AND push_bit (ce ! j) 1 \<noteq> 0);
          b = (i AND push_bit (ce ! (j + 1)) 1 \<noteq> 0)
      in em OR (if a \<noteq> b then push_bit (drop_bit 1 j) 1 else 0))"

definition edge_mask_of :: "nat list \<Rightarrow> nat \<Rightarrow> nat" where
  "edge_mask_of ce i = fold (cross_step ce i) (map (\<lambda>n. 2 * n) [0..<12]) 0"

definition init_edgeTable :: "nat list \<Rightarrow> nat list" where
  "init_edgeTable ce = map (edge_mask_of ce) [0..<256]"

text \<open>The constructor: allocate both arrays and run \<open>init\<close>.\<close>

definition new_SurfaceNets :: surface_nets where
  "new_SurfaceNets =
     \<lparr> cubeEdges = init_cubeEdges, edgeTable = init_edgeTable init_cubeEdges \<rparr>"

text \<open>The two corners of edge \<open>j\<close>, as \<open>extract\<close> reads them.\<close>

definition edge_corners :: "surface_nets \<Rightarrow> nat \<Rightarrow> nat \<times> nat" where
  "edge_corners sn j = (cubeEdges sn ! (push_bit 1 j), cubeEdges sn ! (push_bit 1 j + 1))"

text \<open>Corner \<open>c\<close> is inside (sample below zero) under the corner mask \<open>m\<close>.\<close>

definition inside :: "nat \<Rightarrow> nat \<Rightarrow> bool" where
  "inside m c = bit m c"

text \<open>
  The cube graph the specification describes: corners \<open>a < b < 8\<close> are joined iff they
  differ in exactly one of their three bits.
\<close>

definition cube_topology :: "(nat \<times> nat) list" where
  "cube_topology =
     concat (map (\<lambda>a. concat (map (\<lambda>b.
       if a < b \<and> (a XOR b = 1 \<or> a XOR b = 2 \<or> a XOR b = 4) then [(a, b)] else [])
       [0..<8])) [0..<8])"

section \<open>JavaScript numbers\<close>

text \<open>
  A JavaScript number is an IEEE 754 binary64 value. \<open>Fin a\<close> is the finite value \<open>a\<close>;
  every arithmetic operation rounds its exact result to the nearest binary64 value, ties
  to even, with gradual underflow and overflow to infinity (\<open>d64r\<close>). The store into a
  \<open>Float32Array\<close> rounds in the same way to binary32 (\<open>fround\<close>). The sign of zero is
  the one thing not modelled: both zeros are \<open>Fin 0\<close>. A zero divisor in the modelled
  code is always a difference \<open>a - a\<close>, a square root of a sum of squares or a count,
  hence \<open>+0\<close>, and \<open>0 / 0\<close> is \<open>NaN\<close> for either sign.
\<close>

datatype jsnum = Fin real | PInf | NInf | NaN

text \<open>Rounding to the nearest integer, ties to the even one.\<close>

definition round_even :: "real \<Rightarrow> int" where
  "round_even y =
     (let f = \<lfloor>y\<rfloor>; d = y - of_int f
      in if d < 1 / 2 then f else if 1 / 2 < d then f + 1
         else if even f then f else f + 1)"

text \<open>
  Rounding a real to the binary format with \<open>p\<close> significant bits and least normal
  exponent \<open>emin\<close> (greatest exponent \<open>1 - emin\<close>): the quantum is \<open>2\<close> to the exponent of
  \<open>x\<close>, or \<open>emin\<close> in the subnormal range, minus \<open>p - 1\<close>; the result overflows when it
  reaches \<open>2 ^ (2 - emin)\<close>.
\<close>

definition ieee_round :: "nat \<Rightarrow> int \<Rightarrow> real \<Rightarrow> jsnum" where
  "ieee_round p emin x =
     (if x = 0 then Fin 0
      else
        let e = max \<lfloor>log 2 \<bar>x\<bar>\<rfloor> emin;
            q = 2 powr (of_int e - real (p - 1));
            r = of_int (round_even (x / q)) * q
        in if 2 powr of_int (2 - emin) \<le> \<bar>r\<bar> then (if 0 < x then PInf else NInf)
           else Fin r)"

definition d64r :: "real \<Rightarrow> jsnum" where
  "d64r = ieee_round 53 (- 1022)"

definition f32r :: "real \<Rightarrow> jsnum" where
  "f32r = ieee_round 24 (- 126)"

text \<open>The value read back from a \<open>Float32Array\<close> element after storing \<open>v\<close>.\<close>

fun fround :: "jsnum \<Rightarrow> jsnum" where
  "fround (Fin a) = f32r a"
| "fround v = v"

fun jneg :: "jsnum \<Rightarrow> jsnum" where
  "jneg (Fin a) = Fin (- a)"
| "jneg PInf = NInf"
| "jneg NInf = PInf"
| "jneg NaN = NaN"

fun jadd :: "jsnum \<Rightarrow> jsnum \<Rightarrow> jsnum" where
  "jadd (Fin a) (Fin b) = d64r (a + b)"
| "jadd NaN _ = NaN"
| "jadd _ NaN = NaN"
| "jadd PInf NInf = NaN"
| "jadd NInf PInf = NaN"
| "jadd PInf _ = PInf"
| "jadd _ PInf = PInf"
| "jadd NInf _ = NInf"
| "jadd _ NInf = NInf"

definition jsub :: "jsnum \<Rightarrow> jsnum \<Rightarrow> jsnum" where
  "jsub a b = jadd a (jneg b)"

fun jmul :: "jsnum \<Rightarrow> jsnum \<Rightarrow> jsnum" where
  "jmul (Fin a) (Fin b) = d64r (a * b)"
| "jmul NaN _ = NaN"
| "jmul _ NaN = NaN"
| "jmul PInf (Fin b) = (if b = 0 then NaN else if 0 < b then PInf else NInf)"
| "jmul NInf (Fin b) = (if b = 0 then NaN else if 0 < b then NInf else PInf)"
| "jmul (Fin a) PInf = (if a = 0 then NaN else if 0 < a then PInf else NInf)"
| "jmul (Fin a) NInf = (if a = 0 then NaN else if 0 < a then NInf else PInf)"
| "jmul PInf PInf = PInf"
| "jmul PInf NInf = NInf"
| "jmul NInf PInf = NInf"
| "jmul NInf NInf = PInf"

fun jdiv :: "jsnum \<Rightarrow> jsnum \<Rightarrow> jsnum" where
  "jdiv (Fin a) (Fin b) =
     (if b = 0 then (if a = 0 then NaN else if 0 < a then PInf else NInf)
      else d64r (a / b))"
| "jdiv NaN _ = NaN"
| "jdiv _ NaN = NaN"
| "jdiv (Fin a) _ = Fin 0"
| "jdiv PInf (Fin b) = (if 0 \<le> b then PInf else NInf)"
| "jdiv NInf (Fin b) = (if 0 \<le> b then NInf else PInf)"
| "jdiv _ _ = NaN"

fun jsqrt :: "jsnum \<Rightarrow> jsnum" where
  "jsqrt (Fin a) = (if a < 0 then NaN else d64r (sqrt a))"
| "jsqrt PInf = PInf"
| "jsqrt _ = NaN"

fun jabs :: "jsnum \<Rightarrow> jsnum" where
  "jabs (Fin a) = Fin \<bar>a\<bar>"
| "jabs NaN = NaN"
| "jabs _ = PInf"

fun jfloor :: "jsnum \<Rightarrow> jsnum" where
  "jfloor (Fin a) = Fin (of_int \<lfloor>a\<rfloor>)"
| "jfloor v = v"

text \<open>The comparisons \<open><\<close> and \<open><=\<close>: false whenever an operand is \<open>NaN\<close>.\<close>

fun jlt :: "jsnum \<Rightarrow> jsnum \<Rightarrow> bool" where
  "jlt (Fin a) (Fin b) = (a < b)"
| "jlt NaN _ = False"
| "jlt _ NaN = False"
| "jlt _ NInf = False"
| "jlt PInf _ = False"
| "jlt _ _ = True"

fun jle :: "jsnum \<Rightarrow> jsnum \<Rightarrow> bool" where
  "jle (Fin a) (Fin b) = (a \<le> b)"
| "jle NaN _ = False"
| "jle _ NaN = False"
| "jle NInf _ = True"
| "jle _ PInf = True"
| "jle _ _ = False"

text \<open>\<open>Math.min\<close> and \<open>Math.max\<close>: \<open>NaN\<close> as soon as one argument is.\<close>

definition jmin :: "jsnum \<Rightarrow> jsnum \<Rightarrow> jsnum" where
  "jmin a b = (if a = NaN \<or> b = NaN then NaN else if jlt b a then b else a)"

definition jmax :: "jsnum \<Rightarrow> jsnum \<Rightarrow> jsnum" where
  "jmax a b = (if a = NaN \<or> b = NaN then NaN else if jlt a b then b else a)"

text \<open>\<open>Math.pow(v, 2)\<close>, taken as the correctly rounded square.\<close>

definition jpow2 :: "jsnum \<Rightarrow> jsnum" where
  "jpow2 v = jmul v v"

text \<open>
  \<open>ToInt32\<close>, applied by the bitwise operators: non-finite values become 0, finite ones
  are truncated towards zero and wrapped into \<open>[-2^31, 2^31)\<close>.
\<close>

fun to_int32 :: "jsnum \<Rightarrow> int" where
  "to_int32 (Fin a) =
     (let n = (if 0 \<le> a then \<lfloor>a\<rfloor> else \<lceil>a\<rceil>) mod 2 ^ 32
      in if 2 ^ 31 \<le> n then n - 2 ^ 32 else n)"
| "to_int32 _ = 0"

type_synonym vec3 = "jsnum \<times> jsnum \<times> jsnum"

section \<open>Surface Nets: extraction\<close>

type_synonym face = "nat \<times> nat \<times> nat"
type_synonym field = "jsnum \<Rightarrow> jsnum \<Rightarrow> jsnum \<Rightarrow> jsnum"

text \<open>
  The mutable state of one \<open>extract\<close> call: the two output arrays, the \<open>Map\<close> from cell
  keys to vertex indices, and a ghost counter of the invocations of \<open>densityFunc\<close>.
\<close>

record mesh_state =
  vertices :: "vec3 list"
  faces :: "face list"
  vertexBuffer :: "string \<rightharpoonup> nat"
  calls :: nat

text \<open>The template string \<open>`${x},${y},${z}`\<close> of decimal numerals.\<close>

fun dec :: "nat \<Rightarrow> string" where
  "dec n = (if n < 10 then [char_of (48 + n)]
            else dec (n div 10) @ [char_of (48 + n mod 10)])"

declare dec.simps [simp del]

definition getKey :: "nat \<Rightarrow> nat \<Rightarrow> nat \<Rightarrow> string" where
  "getKey x y z = dec x @ '','' @ dec y @ '','' @ dec z"

text \<open>
  Reading the 8 corners. One step is the body of the innermost \<open>dx\<close> loop: it invokes
  the field once, stores the sample at \<open>grid[g]\<close>, sets bit \<open>g\<close> of the mask when the
  sample is negative, and advances \<open>g\<close>. The state is \<open>(g, mask, grid, calls)\<close>.
  \<open>grid\<close> is a \<open>Float32Array\<close>: the element holds the sample rounded to binary32, while
  the mask is taken from the sample itself. (The source allocates \<open>grid\<close> once and
  overwrites all 8 entries in every cell before reading any, so the model starts each
  cell from a fresh array.)
\<close>

definition sample_step ::
  "field \<Rightarrow> vec3 \<Rightarrow> vec3 \<Rightarrow> nat \<Rightarrow> nat \<Rightarrow> nat \<Rightarrow>
   nat \<times> nat \<times> jsnum list \<times> nat \<Rightarrow> nat \<times> nat \<times> jsnum list \<times> nat" where
  "sample_step densityFunc pos scale dz dy dx = (\<lambda>(g, cmask, grid, n).
     case (pos, scale) of ((xPos, yPos, zPos), (sx, sy, sz)) \<Rightarrow>
     let val = densityFunc (jadd xPos (jmul (Fin (real dx)) sx))
                           (jadd yPos (jmul (Fin (real dy)) sy))
                           (jadd zPos (jmul (Fin (real dz)) sz))
     in (g + 1, cmask OR (if jlt val (Fin 0) then push_bit g 1 else 0),
         grid[g := fround val], n + 1))"

definition sample_corners ::
  "field \<Rightarrow> vec3 \<Rightarrow> vec3 \<Rightarrow> nat \<Rightarrow> nat \<times> nat \<times> jsnum list \<times> nat" where
  "sample_corners densityFunc pos scale n =
     fold (\<lambda>dz. fold (\<lambda>dy. fold (\<lambda>dx. sample_step densityFunc pos scale dz dy dx)
        [0..<2]) [0..<2]) [0..<2] (0, 0, replicate 8 (Fin 0), n)"

text \<open>
  The vertex accumulation. \<open>axis_step\<close> is the body of the \<open>j\<close> loop over the three
  axes (state: the bit \<open>k\<close> of the axis and the sum \<open>v\<close>); \<open>edge_accum\<close> is the body of
  the \<open>i\<close> loop over the 12 edges (state: \<open>vertCount\<close> and \<open>v\<close>).
\<close>

definition axis_step ::
  "nat \<Rightarrow> nat \<Rightarrow> jsnum \<Rightarrow> nat \<Rightarrow> nat \<times> jsnum list \<Rightarrow> nat \<times> jsnum list" where
  "axis_step e0 e1 t j = (\<lambda>(k, v).
     let a = e0 AND k; b = e1 AND k
     in (push_bit 1 k,
         v[j := jadd (v ! j)
                  (if a \<noteq> b then (if a \<noteq> 0 then jsub (Fin 1) t else t)
                   else (if a \<noteq> 0 then Fin 1 else Fin 0))]))"

definition edge_accum ::
  "surface_nets \<Rightarrow> jsnum list \<Rightarrow> nat \<Rightarrow> nat \<Rightarrow> nat \<times> jsnum list \<Rightarrow> nat \<times> jsnum list" where
  "edge_accum sn grid edgeMask i = (\<lambda>(vertCount, v).
     if edgeMask AND push_bit i 1 = 0 then (vertCount, v)
     else
       let e0 = cubeEdges sn ! (push_bit 1 i);
           e1 = cubeEdges sn ! (push_bit 1 i + 1);
           g0 = grid ! e0;
           g1 = grid ! e1;
           t = jdiv g0 (jsub g0 g1)
       in (vertCount + 1, snd (fold (axis_step e0 e1 t) [0..<3] (1, v))))"

definition accumulate :: "surface_nets \<Rightarrow> jsnum list \<Rightarrow> nat \<Rightarrow> nat \<times> jsnum list" where
  "accumulate sn grid edgeMask =
     fold (edge_accum sn grid edgeMask) [0..<12] (0, [Fin 0, Fin 0, Fin 0])"

text \<open>Averaging and the map into world space: the vertex that is pushed.\<close>

definition cell_vertex :: "surface_nets \<Rightarrow> jsnum list \<Rightarrow> nat \<Rightarrow> vec3 \<Rightarrow> vec3 \<Rightarrow> vec3" where
  "cell_vertex sn grid edgeMask pos scale =
     (case (pos, scale, accumulate sn grid edgeMask) of
        ((xPos, yPos, zPos), (sx, sy, sz), (vertCount, v)) \<Rightarrow>
        let s = jdiv (Fin 1) (Fin (real vertCount))
        in (jadd xPos (jmul (jmul (v ! 0) s) sx),
            jadd yPos (jmul (jmul (v ! 1) s) sy),
            jadd zPos (jmul (jmul (v ! 2) s) sz)))"

text \<open>
  Face stitching. \<open>quad\<close> is the body shared by the three directions: the four lookups
  in the vertex buffer, the test that none is \<open>undefined\<close>, and the two triangles in the
  winding that \<open>mask & 1\<close> selects. It returns the faces to push.
\<close>

definition quad ::
  "(string \<rightharpoonup> nat) \<Rightarrow> nat \<Rightarrow> string \<Rightarrow> string \<Rightarrow> string \<Rightarrow> string \<Rightarrow> face list" where
  "quad vb cmask k0 k1 k2 k3 =
     (case vb k0 of None \<Rightarrow> [] | Some v0 \<Rightarrow>
     (case vb k1 of None \<Rightarrow> [] | Some v1 \<Rightarrow>
     (case vb k2 of None \<Rightarrow> [] | Some v2 \<Rightarrow>
     (case vb k3 of None \<Rightarrow> [] | Some v3 \<Rightarrow>
        if cmask AND 1 \<noteq> 0 then [(v0, v1, v2), (v0, v2, v3)]
        else [(v0, v3, v2), (v0, v2, v1)]))))"

definition x_faces :: "(string \<rightharpoonup> nat) \<Rightarrow> nat \<Rightarrow> nat \<Rightarrow> nat \<Rightarrow> nat \<Rightarrow> nat \<Rightarrow> face list" where
  "x_faces vb edgeMask cmask x y z =
     (if edgeMask AND 1 \<noteq> 0 then
        if 0 < y \<and> 0 < z then
          quad vb cmask (getKey x y z) (getKey x (y - 1) z)
                       (getKey x (y - 1) (z - 1)) (getKey x y (z - 1))
        else []
      else [])"

definition y_faces :: "(string \<rightharpoonup> nat) \<Rightarrow> nat \<Rightarrow> nat \<Rightarrow> nat \<Rightarrow> nat \<Rightarrow> nat \<Rightarrow> face list" where
  "y_faces vb edgeMask cmask x y z =
     (if edgeMask AND 2 \<noteq> 0 then
        if 0 < x \<and> 0 < z then
          quad vb cmask (getKey x y z) (getKey x y (z - 1))
                       (getKey (x - 1) y (z - 1)) (getKey (x - 1) y z)
        else []
      else [])"

definition z_faces :: "(string \<rightharpoonup> nat) \<Rightarrow> nat \<Rightarrow> nat \<Rightarrow> nat \<Rightarrow> nat \<Rightarrow> nat \<Rightarrow> face list" where
  "z_faces vb edgeMask cmask x y z =
     (if edgeMask AND 4 \<noteq> 0 then
        if 0 < x \<and> 0 < y then
          quad vb cmask (getKey x y z) (getKey (x - 1) y z)
                       (getKey (x - 1) (y - 1) z) (getKey x (y - 1) z)
        else []
      else [])"

text \<open>The body of the innermost \<open>x\<close> loop: one lattice cell.\<close>

definition cell ::
  "surface_nets \<Rightarrow> field \<Rightarrow> vec3 \<Rightarrow> vec3 \<Rightarrow> nat \<Rightarrow> nat \<Rightarrow> nat \<Rightarrow> mesh_state \<Rightarrow> mesh_state" where
  "cell sn densityFunc b0 scale z y x st =
     (case (b0, scale) of ((b0x, b0y, b0z), (sx, sy, sz)) \<Rightarrow>
      let pos = (jadd b0x (jmul (Fin (real x)) sx),
                 jadd b0y (jmul (Fin (real y)) sy),
                 jadd b0z (jmul (Fin (real z)) sz))
      in case sample_corners densityFunc pos scale (calls st) of (g, cmask, grid, n) \<Rightarrow>
        if cmask = 0 \<or> cmask = 255 then st\<lparr>calls := n\<rparr>
        else
          let edgeMask = edgeTable sn ! cmask;
              vertIdx = length (vertices st);
              vs = vertices st @ [cell_vertex sn grid edgeMask pos scale];
              vb = (vertexBuffer st)(getKey x y z \<mapsto> vertIdx);
              fs = faces st @ x_faces vb edgeMask cmask x y z
                            @ y_faces vb edgeMask cmask x y z
                            @ z_faces vb edgeMask cmask x y z
          in \<lparr>vertices = vs, faces = fs, vertexBuffer = vb, calls = n\<rparr>)"

text \<open>
  \<^verbatim>\<open>extract\<close> (here \<open>extract_mesh\<close>): the per-axis cell size, then the march over
  the volume, \<open>z\<close> outermost.
  \<open>resolution\<close> is an integer; the loops run while the index is below
  \<open>resolution - 1\<close>.
\<close>

definition cell_size :: "vec3 \<times> vec3 \<Rightarrow> int \<Rightarrow> vec3" where
  "cell_size bounds resolution =
     (case bounds of ((b0x, b0y, b0z), (b1x, b1y, b1z)) \<Rightarrow>
        (jdiv (jsub b1x b0x) (jsub (Fin (of_int resolution)) (Fin 1)),
         jdiv (jsub b1y b0y) (jsub (Fin (of_int resolution)) (Fin 1)),
         jdiv (jsub b1z b0z) (jsub (Fin (of_int resolution)) (Fin 1))))"

definition extract_mesh :: "surface_nets \<Rightarrow> field \<Rightarrow> vec3 \<times> vec3 \<Rightarrow> int \<Rightarrow> mesh_state" where
  "extract_mesh sn densityFunc bounds resolution =
     (let scale = cell_size bounds resolution;
          n = nat (resolution - 1)
      in fold (\<lambda>z. fold (\<lambda>y. fold (\<lambda>x. cell sn densityFunc (fst bounds) scale z y x)
           [0..<n]) [0..<n]) [0..<n]
           \<lparr>vertices = [], faces = [], vertexBuffer = Map.empty, calls = 0\<rparr>)"

section \<open>The planet: noise and signed distance\<close>

text \<open>The 256 base values that \<open>initNoise\<close> copies twice into the 512-entry table.\<close>

definition perm_base :: "nat list" where
  "perm_base = [
      151, 160, 137, 91, 90, 15, 131, 13, 201, 95, 96, 53, 194, 233, 7, 225,
      140, 36, 103, 30, 69, 142, 8, 99, 37, 240, 21, 10, 23, 190, 6, 148,
      247, 120, 234, 75, 0, 26, 197, 62, 94, 252, 219, 203, 117, 35, 11, 32,
      57, 177, 33, 88, 237, 149, 56, 87, 174, 20, 125, 136, 171, 168, 68, 175,
      74, 165, 71, 134, 139, 48, 27, 166, 77, 146, 158, 231, 83, 111, 229, 122,
      60, 211, 133, 230, 220, 105, 92, 41, 55, 46, 245, 40, 244, 102, 143, 54,
      65, 25, 63, 161, 1, 216, 80, 73, 209, 76, 132, 187, 208, 89, 18, 169,
      200, 196, 135, 130, 116, 188, 159, 86, 164, 100, 109, 198, 173, 186, 3, 64,
      52, 217, 226, 250, 124, 123, 5, 202, 38, 147, 118, 126, 255, 82, 85, 212,
      207, 206, 59, 227, 47, 16, 58, 17, 182, 189, 28, 42, 223, 183, 170, 213,
      119, 248, 152, 2, 44, 154, 163, 70, 221, 153, 101, 155, 167, 43, 172, 9,
      129, 22, 39, 253, 19, 98, 108, 110, 79, 113, 224, 232, 178, 185, 112, 104,
      218, 246, 97, 228, 251, 34, 242, 193, 238, 210, 144, 12, 191, 179, 162, 241,
      81, 51, 145, 235, 249, 14, 239, 107, 49, 192, 214, 31, 181, 199, 106, 157,
      184, 84, 204, 176, 115, 121, 50, 45, 127, 4, 150, 254, 138, 236, 205, 93,
      222, 114, 67, 29, 24, 72, 243, 141, 128, 195, 78, 66, 215, 61, 156, 180]"

definition initNoise :: "nat list" where
  "initNoise =
     fold (\<lambda>i pm. pm[i + 256 := perm_base ! i, i := perm_base ! i])
       [0..<256] (replicate 512 0)"

record modification =
  mod_position :: vec3
  mod_radius :: jsnum
  mod_add :: bool

text \<open>
  The fields of \<open>TinyPlanet\<close> that the distance function reads, and the resolution.
  The scene, the mesh object and the wireframe flag belong to rendering.
\<close>

record planet =
  center :: vec3
  radius :: jsnum
  resolution :: int
  modifications :: "modification list"
  perm :: "nat list"

definition fade :: "jsnum \<Rightarrow> jsnum" where
  "fade t = jmul (jmul (jmul t t) t)
              (jadd (jmul t (jsub (jmul t (Fin 6)) (Fin 15))) (Fin 10))"

definition lerp :: "jsnum \<Rightarrow> jsnum \<Rightarrow> jsnum \<Rightarrow> jsnum" where
  "lerp a b t = jadd a (jmul t (jsub b a))"

definition grad :: "nat \<Rightarrow> jsnum \<Rightarrow> jsnum \<Rightarrow> jsnum \<Rightarrow> jsnum" where
  "grad hash x y z =
     (let h = hash AND 15;
          u = (if h < 8 then x else y);
          v = (if h < 4 then y else if h = 12 \<or> h = 14 then x else z)
      in jadd (if h AND 1 = 0 then u else jneg u) (if h AND 2 = 0 then v else jneg v))"

definition noise3D :: "nat list \<Rightarrow> jsnum \<Rightarrow> jsnum \<Rightarrow> jsnum \<Rightarrow> jsnum" where
  "noise3D pm x0 y0 z0 =
     (let X = nat (to_int32 (jfloor x0) AND 255);
          Y = nat (to_int32 (jfloor y0) AND 255);
          Z = nat (to_int32 (jfloor z0) AND 255);
          x = jsub x0 (jfloor x0);
          y = jsub y0 (jfloor y0);
          z = jsub z0 (jfloor z0);
          u = fade x;
          v = fade y;
          w = fade z;
          A = pm ! X + Y;
          AA = pm ! A + Z;
          AB = pm ! (A + 1) + Z;
          B = pm ! (X + 1) + Y;
          BA = pm ! B + Z;
          BB = pm ! (B + 1) + Z
      in lerp
           (lerp
              (lerp (grad (pm ! AA) x y z) (grad (pm ! BA) (jsub x (Fin 1)) y z) u)
              (lerp (grad (pm ! AB) x (jsub y (Fin 1)) z)
                    (grad (pm ! BB) (jsub x (Fin 1)) (jsub y (Fin 1)) z) u)
              v)
           (lerp
              (lerp (grad (pm ! (AA + 1)) x y (jsub z (Fin 1)))
                    (grad (pm ! (BA + 1)) (jsub x (Fin 1)) y (jsub z (Fin 1))) u)
              (lerp (grad (pm ! (AB + 1)) x (jsub y (Fin 1)) (jsub z (Fin 1)))
                    (grad (pm ! (BB + 1)) (jsub x (Fin 1)) (jsub y (Fin 1)) (jsub z (Fin 1))) u)
              v)
           w)"

text \<open>
  The first part of \<open>sdf\<close>, up to the loop over the modifications: the base sphere, the
  direction \<open>(nx, ny, nz)\<close> obtained by dividing by \<open>distFromCenter\<close>, and the four
  terrain layers subtracted from the distance. A decimal literal such as \<open>0.08\<close> is the
  binary64 value nearest to it.
\<close>

definition direction :: "planet \<Rightarrow> jsnum \<Rightarrow> jsnum \<Rightarrow> jsnum \<Rightarrow> vec3" where
  "direction pl x y z =
     (case center pl of (cx, cy, cz) \<Rightarrow>
      let dx = jsub x cx; dy = jsub y cy; dz = jsub z cz;
          distFromCenter = jsqrt (jadd (jadd (jmul dx dx) (jmul dy dy)) (jmul dz dz))
      in (jdiv dx distFromCenter, jdiv dy distFromCenter, jdiv dz distFromCenter))"

definition terrain :: "planet \<Rightarrow> jsnum \<Rightarrow> jsnum \<Rightarrow> jsnum \<Rightarrow> jsnum" where
  "terrain pl x y z =
     (case center pl of (cx, cy, cz) \<Rightarrow>
      let dx = jsub x cx; dy = jsub y cy; dz = jsub z cz;
          distFromCenter = jsqrt (jadd (jadd (jmul dx dx) (jmul dy dy)) (jmul dz dz));
          dist = jsub distFromCenter (radius pl)
      in case direction pl x y z of (nx, ny, nz) \<Rightarrow>
      let continentNoise =
            noise3D (perm pl) (jmul nx (Fin 2)) (jmul ny (Fin 2)) (jmul nz (Fin 2));
          continentHeight = jmul (jmul continentNoise (radius pl)) (d64r (8 / 100));
          mountainNoise1 =
            noise3D (perm pl) (jadd (jmul nx (Fin 4)) (Fin 50))
                              (jadd (jmul ny (Fin 4)) (Fin 50))
                              (jadd (jmul nz (Fin 4)) (Fin 50));
          ridged = jsub (Fin 1) (jabs mountainNoise1);
          mountainHeight = jmul (jmul (jpow2 ridged) (radius pl)) (d64r (15 / 100));
          hillNoise =
            noise3D (perm pl) (jmul nx (Fin 10)) (jmul ny (Fin 10)) (jmul nz (Fin 10));
          hillHeight = jmul (jmul hillNoise (radius pl)) (d64r (3 / 100));
          microNoise1 =
            noise3D (perm pl) (jmul nx (Fin 25)) (jmul ny (Fin 25)) (jmul nz (Fin 25));
          microNoise2 =
            noise3D (perm pl) (jmul nx (Fin 50)) (jmul ny (Fin 50)) (jmul nz (Fin 50));
          microHeight =
            jmul (jadd (jmul microNoise1 (d64r (15 / 1000))) (jmul microNoise2 (d64r (8 / 1000))))
                 (radius pl)
      in jsub (jsub (jsub (jsub dist continentHeight) mountainHeight) hillHeight) microHeight)"

text \<open>
  The loop over the modifications. \<open>modDist\<close> is the signed distance of the point to the
  sphere of the modification; \<open>apply_mod\<close> is the loop body on the running distance
  \<open>d\<close> (the variable \<open>dist\<close> of the source), \<open>apply_mods\<close> the loop.
\<close>

definition modDist :: "modification \<Rightarrow> jsnum \<Rightarrow> jsnum \<Rightarrow> jsnum \<Rightarrow> jsnum" where
  "modDist md x y z =
     (case mod_position md of (px, py, pz) \<Rightarrow>
      let mdx = jsub x px; mdy = jsub y py; mdz = jsub z pz
      in jsub (jsqrt (jadd (jadd (jmul mdx mdx) (jmul mdy mdy)) (jmul mdz mdz)))
              (mod_radius md))"

definition apply_mod :: "jsnum \<Rightarrow> jsnum \<Rightarrow> jsnum \<Rightarrow> jsnum \<Rightarrow> modification \<Rightarrow> jsnum" where
  "apply_mod x y z d md =
     (if mod_add md then jmin d (modDist md x y z)
      else jmax d (jneg (modDist md x y z)))"

fun apply_mods :: "jsnum \<Rightarrow> jsnum \<Rightarrow> jsnum \<Rightarrow> jsnum \<Rightarrow> modification list \<Rightarrow> jsnum" where
  "apply_mods x y z d [] = d"
| "apply_mods x y z d (md # mds) = apply_mods x y z (apply_mod x y z d md) mds"

definition sdf :: "planet \<Rightarrow> jsnum \<Rightarrow> jsnum \<Rightarrow> jsnum \<Rightarrow> jsnum" where
  "sdf pl x y z = apply_mods x y z (terrain pl x y z) (modifications pl)"

text \<open>
  The constructor and the two edits. \<open>mine\<close> and \<open>place\<close> push one modification (the
  radius defaults to 2) and rebuild the mesh; \<open>generateMesh\<close> is the extraction over the
  padded bounding box, whose result is handed to the renderer.
\<close>

definition new_TinyPlanet :: "vec3 \<Rightarrow> jsnum \<Rightarrow> int \<Rightarrow> planet" where
  "new_TinyPlanet c r res =
     \<lparr>center = c, radius = r, resolution = res, modifications = [], perm = initNoise\<rparr>"

definition generateMesh :: "planet \<Rightarrow> mesh_state" where
  "generateMesh pl =
     (case center pl of (cx, cy, cz) \<Rightarrow>
      let padding = jmul (radius pl) (d64r (3 / 10));
          bounds = ((jsub (jsub cx (radius pl)) padding,
                     jsub (jsub cy (radius pl)) padding,
                     jsub (jsub cz (radius pl)) padding),
                    (jadd (jadd cx (radius pl)) padding,
                     jadd (jadd cy (radius pl)) padding,
                     jadd (jadd cz (radius pl)) padding))
      in extract_mesh new_SurfaceNets (sdf pl) bounds (resolution pl))"

definition mine :: "planet \<Rightarrow> vec3 \<Rightarrow> jsnum option \<Rightarrow> planet" where
  "mine pl position r =
     pl\<lparr>modifications := modifications pl @
        [\<lparr>mod_position = position,
          mod_radius = (case r of None \<Rightarrow> Fin 2 | Some v \<Rightarrow> v),
          mod_add = False\<rparr>]\<rparr>"

definition place :: "planet \<Rightarrow> vec3 \<Rightarrow> jsnum option \<Rightarrow> planet" where
  "place pl position r =
     pl\<lparr>modifications := modifications pl @
        [\<lparr>mod_position = position,
          mod_radius = (case r of None \<Rightarrow> Fin 2 | Some v \<Rightarrow> v),
          mod_add = True\<rparr>]\<rparr>"

section \<open>Definitions that follow the specification\<close>

text \<open>
  A Modification of the specification: centre, radius and mode. The distance to its
  sphere is the Euclidean distance to the centre minus the radius, evaluated in
  binary64; the minimum and the maximum of two numbers are those of the order on the
  reals extended by the two infinities, and \<open>NaN\<close> when an operand is \<open>NaN\<close>. The fold
  applies \<open>min\<close> with the distance for Add and \<open>max\<close> with the negated distance for
  Subtract, from the first modification of the list to the last.
\<close>

datatype mode = Add | Subtract

type_synonym spec_modification = "vec3 \<times> jsnum \<times> mode"

definition square :: "jsnum \<Rightarrow> jsnum" where
  "square v = jmul v v"

definition euclid :: "vec3 \<Rightarrow> vec3 \<Rightarrow> jsnum" where
  "euclid p q =
     (case (p, q) of ((px, py, pz), (qx, qy, qz)) \<Rightarrow>
        jsqrt (jadd (jadd (square (jsub px qx)) (square (jsub py qy))) (square (jsub pz qz))))"

definition sphere_distance :: "vec3 \<Rightarrow> jsnum \<Rightarrow> vec3 \<Rightarrow> jsnum" where
  "sphere_distance c r p = jsub (euclid p c) r"

fun num_min :: "jsnum \<Rightarrow> jsnum \<Rightarrow> jsnum" where
  "num_min NaN _ = NaN"
| "num_min _ NaN = NaN"
| "num_min (Fin a) (Fin b) = Fin (min a b)"
| "num_min NInf _ = NInf"
| "num_min _ NInf = NInf"
| "num_min PInf v = v"
| "num_min v PInf = v"

fun num_max :: "jsnum \<Rightarrow> jsnum \<Rightarrow> jsnum" where
  "num_max NaN _ = NaN"
| "num_max _ NaN = NaN"
| "num_max (Fin a) (Fin b) = Fin (max a b)"
| "num_max PInf _ = PInf"
| "num_max _ PInf = PInf"
| "num_max NInf v = v"
| "num_max v NInf = v"

fun csg_step :: "vec3 \<Rightarrow> jsnum \<Rightarrow> spec_modification \<Rightarrow> jsnum" where
  "csg_step p d (c, r, Add) = num_min d (sphere_distance c r p)"
| "csg_step p d (c, r, Subtract) = num_max d (jneg (sphere_distance c r p))"

definition csg_fold :: "vec3 \<Rightarrow> jsnum \<Rightarrow> spec_modification list \<Rightarrow> jsnum" where
  "csg_fold p base ms = foldl (csg_step p) base ms"

text \<open>The Modification that a list entry \<open>{position, radius, add}\<close> of the code stands for.\<close>

definition as_spec :: "modification \<Rightarrow> spec_modification" where
  "as_spec md = (mod_position md, mod_radius md, if mod_add md then Add else Subtract)"

text \<open>The complemented corner mask \<^verbatim>\<open>~mask & 0xFF\<close>, on 32-bit integers.\<close>

definition complement_mask :: "nat \<Rightarrow> nat" where
  "complement_mask m = nat (NOT (int m) AND 255)"

text \<open>
  The sample at corner \<open>c\<close> of a cell (bit 0 of \<open>c\<close> is the x offset, bit 1 the y offset,
  bit 2 the z offset), and the corner mask of 8 samples (bit \<open>g\<close> set iff sample \<open>g\<close> is
  below zero).
\<close>

definition corner_sample :: "field \<Rightarrow> vec3 \<Rightarrow> vec3 \<Rightarrow> nat \<Rightarrow> jsnum" where
  "corner_sample densityFunc pos scale c =
     (case (pos, scale) of ((xPos, yPos, zPos), (sx, sy, sz)) \<Rightarrow>
        densityFunc (jadd xPos (jmul (Fin (if bit c 0 then 1 else 0)) sx))
                    (jadd yPos (jmul (Fin (if bit c 1 then 1 else 0)) sy))
                    (jadd zPos (jmul (Fin (if bit c 2 then 1 else 0)) sz)))"

definition corner_mask :: "jsnum list \<Rightarrow> nat" where
  "corner_mask grid =
     fold (\<lambda>g m. m OR (if jlt (grid ! g) (Fin 0) then push_bit g 1 else 0)) [0..<8] 0"

text \<open>
  The invariant of the march: every index stored in the vertex buffer or in a face is
  the index of a vertex that has been pushed.
\<close>

fun face_ok :: "nat \<Rightarrow> face \<Rightarrow> bool" where
  "face_ok n (a, b, c) = (a < n \<and> b < n \<and> c < n)"

definition mesh_ok :: "mesh_state \<Rightarrow> bool" where
  "mesh_ok st =
     ((\<forall>k v. vertexBuffer st k = Some v \<longrightarrow> v < length (vertices st))
      \<and> (\<forall>f \<in> set (faces st). face_ok (length (vertices st)) f))"

text \<open>
  The zero crossing of an edge, as the specification words it, over the reals.
  \<open>corner_coord c j\<close> is
  the coordinate of corner \<open>c\<close> along axis \<open>j\<close> in the unit cube; \<open>crossing_edges\<close> are
  the edges of the cube topology whose two corners differ in status under the corner
  mask; \<open>crossing_point\<close> interpolates between the two corners of edge \<open>i\<close> with
  \<open>t = s0 / (s0 - s1)\<close>; \<open>mean_crossing\<close> is the arithmetic mean over the crossing edges.
\<close>

definition corner_coord :: "nat \<Rightarrow> nat \<Rightarrow> real" where
  "corner_coord c j = (if bit c j then 1 else 0)"

definition crossing_edges :: "nat \<Rightarrow> nat list" where
  "crossing_edges cm =
     filter (\<lambda>i. inside cm (fst (cube_topology ! i)) \<noteq> inside cm (snd (cube_topology ! i)))
       [0..<12]"

definition crossing_point :: "real list \<Rightarrow> nat \<Rightarrow> nat \<Rightarrow> real" where
  "crossing_point s i j =
     (let c0 = fst (cube_topology ! i);
          c1 = snd (cube_topology ! i);
          t = s ! c0 / (s ! c0 - s ! c1)
      in corner_coord c0 j + t * (corner_coord c1 j - corner_coord c0 j))"

definition mean_crossing :: "real list \<Rightarrow> nat \<Rightarrow> nat \<Rightarrow> real" where
  "mean_crossing s cm j =
     sum_list (map (\<lambda>i. crossing_point s i j) (crossing_edges cm))
       / real (length (crossing_edges cm))"

text \<open>
  The per-axis cell size (bounds extent divided by \<open>resolution - 1\<close>) and the origin of
  cell \<open>n\<close> along one axis, over the reals.
\<close>

definition axis_cell_size :: "real \<Rightarrow> real \<Rightarrow> int \<Rightarrow> real" where
  "axis_cell_size lo hi res = (hi - lo) / real_of_int (res - 1)"

definition cell_origin :: "real \<Rightarrow> real \<Rightarrow> int \<Rightarrow> nat \<Rightarrow> real" where
  "cell_origin lo hi res n = lo + real n * axis_cell_size lo hi res"

text \<open>
  The same in binary64, on the samples \<open>g\<close> as the grid buffer holds them:
  \<open>crossing_param\<close> is \<open>t = g0 / (g0 - g1)\<close> for edge \<open>i\<close>; \<open>crossing_coord\<close> is the
  coordinate of the crossing point along axis \<open>j\<close> (the fixed \<open>0\<close> or \<open>1\<close> of the corners
  when the edge does not cross the axis, \<open>t\<close> or \<open>1 - t\<close> when it does);
  \<open>rounded_mean\<close> is the running sum of these coordinates over the crossing edges times
  the reciprocal of their number. \<open>mean_vertex\<close> maps it into world space for the cell
  \<open>(x, y, z)\<close> of an extraction: cell origin plus mean times cell size, per axis, from the
  8 corner samples of that cell rounded to binary32.
\<close>

definition crossing_param :: "jsnum list \<Rightarrow> nat \<Rightarrow> jsnum" where
  "crossing_param g i =
     jdiv (g ! fst (cube_topology ! i))
          (jsub (g ! fst (cube_topology ! i)) (g ! snd (cube_topology ! i)))"

definition crossing_coord :: "jsnum list \<Rightarrow> nat \<Rightarrow> nat \<Rightarrow> jsnum" where
  "crossing_coord g i j =
     (let c0 = fst (cube_topology ! i); c1 = snd (cube_topology ! i)
      in if bit c0 j = bit c1 j then Fin (corner_coord c0 j)
         else if bit c0 j then jsub (Fin 1) (crossing_param g i)
         else crossing_param g i)"

definition float_sum :: "jsnum list \<Rightarrow> jsnum" where
  "float_sum vs = foldl jadd (Fin 0) vs"

definition rounded_mean :: "jsnum list \<Rightarrow> nat \<Rightarrow> nat \<Rightarrow> jsnum" where
  "rounded_mean g cm j =
     jmul (float_sum (map (\<lambda>i. crossing_coord g i j) (crossing_edges cm)))
          (jdiv (Fin 1) (Fin (real (length (crossing_edges cm)))))"

definition float_cell_size :: "jsnum \<Rightarrow> jsnum \<Rightarrow> int \<Rightarrow> jsnum" where
  "float_cell_size lo hi res = jdiv (jsub hi lo) (jsub (Fin (of_int res)) (Fin 1))"

definition float_origin :: "jsnum \<Rightarrow> jsnum \<Rightarrow> int \<Rightarrow> nat \<Rightarrow> jsnum" where
  "float_origin lo hi res n = jadd lo (jmul (Fin (real n)) (float_cell_size lo hi res))"

definition cell_samples :: "field \<Rightarrow> vec3 \<times> vec3 \<Rightarrow> int \<Rightarrow> nat \<Rightarrow> nat \<Rightarrow> nat \<Rightarrow> jsnum list" where
  "cell_samples densityFunc bounds res x y z =
     (case bounds of ((ax, ay, az), (bx, by, bz)) \<Rightarrow>
        map (corner_sample densityFunc
               (float_origin ax bx res x, float_origin ay by res y, float_origin az bz res z)
               (float_cell_size ax bx res, float_cell_size ay by res, float_cell_size az bz res))
          [0..<8])"

definition mean_vertex :: "field \<Rightarrow> vec3 \<times> vec3 \<Rightarrow> int \<Rightarrow> nat \<Rightarrow> nat \<Rightarrow> nat \<Rightarrow> vec3" where
  "mean_vertex densityFunc bounds res x y z =
     (case bounds of ((ax, ay, az), (bx, by, bz)) \<Rightarrow>
      let s = cell_samples densityFunc bounds res x y z;
          cm = corner_mask s;
          g = map fround s
      in (jadd (float_origin ax bx res x)
               (jmul (rounded_mean g cm 0) (float_cell_size ax bx res)),
          jadd (float_origin ay by res y)
               (jmul (rounded_mean g cm 1) (float_cell_size ay by res)),
          jadd (float_origin az bz res z)
               (jmul (rounded_mean g cm 2) (float_cell_size az bz res))))"

text \<open>
  Two fields used in the examples: the plane \<open>x = 1/2\<close>, negative below it, and the same
  plane scaled by \<open>2 ^ -200\<close>.
\<close>

definition plane_field :: field where
  "plane_field x y z = jsub x (Fin (1 / 2))"

definition tiny_field :: field where
  "tiny_field x y z = jmul (jsub x (Fin (1 / 2))) (Fin (1 / 2 ^ 200))"

section \<open>Rounding\<close>

text \<open>
  What the proofs below need of the rounding: an integer multiple of a power of two with a
  significand of at most \<open>p\<close> bits is kept as it is; a binary32 store of a number
  below half the least subnormal gives zero; a number in the normal range rounds to a
  finite number of the same sign.
\<close>

lemma round_even_of_int: "round_even (of_int z) = z"
  by (simp add: round_even_def)

lemma round_even_bounds: "\<lfloor>y\<rfloor> \<le> round_even y" "round_even y \<le> \<lfloor>y\<rfloor> + 1"
  by (simp_all add: round_even_def Let_def)

lemma ieee_round_0: "ieee_round p emin 0 = Fin 0"
  by (simp add: ieee_round_def)

lemma ieee_round_exact:
  fixes k m :: int
  assumes k: "\<bar>k\<bar> < 2 ^ p" and m: "emin - int (p - 1) \<le> m" and p: "0 < p"
    and big: "\<bar>real_of_int k * 2 powr real_of_int m\<bar> < 2 powr real_of_int (2 - emin)"
  shows "ieee_round p emin (of_int k * 2 powr of_int m) = Fin (of_int k * 2 powr of_int m)"
proof (cases "k = 0")
  case True
  then show ?thesis by (simp add: ieee_round_0)
next
  case False
  let ?x = "of_int k * 2 powr of_int m :: real"
  let ?e = "max \<lfloor>log 2 \<bar>?x\<bar>\<rfloor> emin"
  let ?q = "2 powr (of_int ?e - real (p - 1)) :: real"
  have x0: "?x \<noteq> 0" using False by simp
  have ax: "\<bar>?x\<bar> = of_int \<bar>k\<bar> * 2 powr of_int m" by (simp add: abs_mult)
  have "of_int \<bar>k\<bar> < (2::real) ^ p" using k by (metis of_int_less_numeral_power_cancel_iff)
  then have "\<bar>?x\<bar> < 2 ^ p * 2 powr of_int m" unfolding ax by simp
  also have "\<dots> = 2 powr (real p + of_int m)" by (simp add: powr_add powr_realpow)
  finally have "log 2 \<bar>?x\<bar> < real p + of_int m"
    using x0 by (subst log_less_iff) simp_all
  then have "\<lfloor>log 2 \<bar>?x\<bar>\<rfloor> < int p + m" by (simp add: floor_less_iff)
  then have e: "?e - int (p - 1) \<le> m" using m p by auto
  define n where "n = nat (m - (?e - int (p - 1)))"
  have n: "int n = m - (?e - int (p - 1))" unfolding n_def using e by simp
  have "?x / ?q = of_int k * 2 powr (of_int m - (of_int ?e - real (p - 1)))"
    by (simp add: powr_diff)
  also have "of_int m - (of_int ?e - real (p - 1)) = real_of_int (int n)"
    unfolding n by simp
  also have "(2::real) powr real_of_int (int n) = 2 ^ n"
    by (simp add: powr_realpow)
  finally have "?x / ?q = of_int (k * 2 ^ n)" by simp
  then have r: "of_int (round_even (?x / ?q)) * ?q = ?x"
    by (metis round_even_of_int nonzero_eq_divide_eq powr_gt_zero less_numeral_extra(3)
         zero_neq_numeral powr_eq_0_iff)
  show ?thesis
    using x0 big unfolding ieee_round_def Let_def r by (simp add: not_le)
qed

lemma ieee_round_dyadic:
  fixes k :: int
  assumes "\<bar>k\<bar> < 2 ^ p" and "0 < p" and "int j \<le> int (p - 1) - emin"
    and "int p \<le> 2 - emin"
  shows "ieee_round p emin (of_int k / 2 ^ j) = Fin (of_int k / 2 ^ j)"
proof -
  have eq: "real_of_int k / 2 ^ j = of_int k * 2 powr of_int (- int j)"
    by (simp add: powr_minus powr_realpow divide_inverse)
  have "\<bar>real_of_int k\<bar> < 2 ^ p"
    using assms(1) by (metis of_int_abs of_int_less_numeral_power_cancel_iff)
  then have "\<bar>real_of_int k\<bar> < 2 powr real p" by (simp add: powr_realpow)
  moreover have "real p \<le> real_of_int (2 - emin) + real j"
    using assms(4) by linarith
  then have "2 powr real p \<le> 2 powr (real_of_int (2 - emin) + real j)"
    by (subst powr_le_cancel_iff) simp_all
  ultimately have "\<bar>real_of_int k\<bar> < 2 powr real_of_int (2 - emin) * 2 ^ j"
    by (simp add: powr_add powr_realpow)
  then have "\<bar>real_of_int k\<bar> / 2 ^ j < 2 powr real_of_int (2 - emin)"
    by (simp add: field_simps)
  then have big: "\<bar>real_of_int k * 2 powr real_of_int (- int j)\<bar> < 2 powr real_of_int (2 - emin)"
    by (simp add: abs_mult powr_minus powr_realpow divide_inverse)
  show ?thesis
    unfolding eq
    by (rule ieee_round_exact [OF assms(1) _ assms(2) big]) (use assms(3) in simp)
qed

lemma d64r_dyadic:
  "\<bar>k\<bar> < 2 ^ 53 \<Longrightarrow> j \<le> 1074 \<Longrightarrow> d64r (of_int k / 2 ^ j) = Fin (of_int k / 2 ^ j)"
  unfolding d64r_def by (rule ieee_round_dyadic) simp_all

lemma f32r_dyadic:
  "\<bar>k\<bar> < 2 ^ 24 \<Longrightarrow> j \<le> 149 \<Longrightarrow> f32r (of_int k / 2 ^ j) = Fin (of_int k / 2 ^ j)"
  unfolding f32r_def by (rule ieee_round_dyadic) simp_all

lemma d64r_int: "\<bar>k\<bar> < 2 ^ 53 \<Longrightarrow> d64r (of_int k) = Fin (of_int k)"
  using d64r_dyadic [of k 0] by simp

lemma d64r_0 [simp]: "d64r 0 = Fin 0"
  by (simp add: d64r_def ieee_round_0)

lemma f32r_0 [simp]: "f32r 0 = Fin 0"
  by (simp add: f32r_def ieee_round_0)

lemma f32r_underflow:
  assumes "\<bar>x\<bar> < 2 powr (- 150)"
  shows "f32r x = Fin 0"
proof (cases "x = 0")
  case True
  then show ?thesis by simp
next
  case False
  then have pos: "0 < \<bar>x\<bar>" by simp
  have "log 2 \<bar>x\<bar> < - 150"
    using assms pos by (subst log_less_iff) simp_all
  then have "\<lfloor>log 2 \<bar>x\<bar>\<rfloor> < - 126" by (simp add: floor_less_iff)
  then have e: "max \<lfloor>log 2 \<bar>x\<bar>\<rfloor> (- 126) = - 126" by simp
  let ?q = "2 powr (- 149) :: real"
  have q: "2 powr (real_of_int (- 126) - real (24 - 1)) = ?q" by simp
  have "2 powr (- 150) = ?q * (1 / 2)"
    using powr_add [of "2::real" "- 149" "- 1"] by (simp add: powr_minus)
  then have "\<bar>x\<bar> < ?q * (1 / 2)" using assms by simp
  then have "\<bar>x\<bar> / ?q < 1 / 2" by (simp add: field_simps)
  then have "\<bar>x / ?q\<bar> < 1 / 2" by simp
  define y where "y = x / ?q"
  have y: "- (1 / 2) < y" "y < 1 / 2"
    using \<open>\<bar>x / ?q\<bar> < 1 / 2\<close> unfolding y_def [symmetric] by linarith+
  have "round_even y = 0"
  proof (cases "0 \<le> y")
    case True
    then have "real_of_int 0 \<le> y \<and> y < real_of_int 0 + 1" using y by simp
    then have "\<lfloor>y\<rfloor> = 0" by (subst floor_eq_iff)
    then show ?thesis using y True unfolding round_even_def Let_def by simp
  next
    case False
    then have "real_of_int (- 1) \<le> y \<and> y < real_of_int (- 1) + 1" using y by simp
    then have "\<lfloor>y\<rfloor> = - 1" by (subst floor_eq_iff)
    then show ?thesis using y False unfolding round_even_def Let_def by simp
  qed
  then have "round_even (x / ?q) = 0" unfolding y_def .
  then show ?thesis
    using False unfolding f32r_def ieee_round_def Let_def e q by simp
qed

lemma ieee_round_normal:
  assumes "0 < p" and "2 powr real_of_int emin \<le> x" and "x < 2 powr real_of_int (1 - emin)"
  shows "\<exists>r. 0 < r \<and> ieee_round p emin x = Fin r"
proof -
  have x: "0 < x" using assms(2) by (smt (verit) powr_gt_zero)
  let ?e = "\<lfloor>log 2 \<bar>x\<bar>\<rfloor>"
  have lo: "2 powr real_of_int ?e \<le> x" and hi: "x < 2 powr (real_of_int ?e + 1)"
    using floor_log_eq_powr_iff [of x 2 ?e] x by simp_all
  have "real_of_int emin \<le> log 2 x" using assms(2) x by (subst le_log_iff) simp_all
  then have ge: "emin \<le> ?e" using x by (simp add: le_floor_iff)
  then have e: "max ?e emin = ?e" by simp
  have "log 2 x < real_of_int (1 - emin)" using assms(3) x by (subst log_less_iff) simp_all
  then have "log 2 \<bar>x\<bar> < real_of_int (1 - emin)" using x by simp
  then have "?e < 1 - emin" by (subst floor_less_iff)
  then have le: "?e \<le> - emin" by linarith
  let ?q = "2 powr (real_of_int ?e - real (p - 1)) :: real"
  let ?y = "x / ?q"
  have q: "0 < ?q" by simp
  have y1: "1 \<le> ?y"
  proof -
    have "?q \<le> 2 powr real_of_int ?e" by simp
    with lo have "?q \<le> x" by linarith
    then show ?thesis unfolding le_divide_eq_1_pos [OF q] .
  qed
  have y2: "?y < 2 ^ p"
  proof -
    have "2 powr (real_of_int ?e + 1) = ?q * 2 powr real p"
      using assms(1) by (simp add: powr_add [symmetric] of_nat_diff)
    with hi have "x < 2 ^ p * ?q" by (simp add: powr_realpow mult.commute)
    then show ?thesis unfolding pos_divide_less_eq [OF q] .
  qed
  let ?r = "round_even ?y"
  have r1: "1 \<le> ?r"
    using round_even_bounds(1) [of ?y] y1 by (smt (verit) le_floor_iff of_int_1)
  have "\<lfloor>?y\<rfloor> < 2 ^ p" using y2 by (simp add: floor_less_iff)
  then have r2: "?r \<le> 2 ^ p" using round_even_bounds(2) [of ?y] by linarith
  have pos: "0 < real_of_int ?r * ?q" using r1 q by simp
  have "real_of_int ?r \<le> real_of_int (2 ^ p)" using r2 by (subst of_int_le_iff)
  then have "real_of_int ?r \<le> 2 ^ p" by simp
  then have "real_of_int ?r * ?q \<le> 2 ^ p * ?q"
    using q by (intro mult_right_mono) simp_all
  also have "\<dots> = 2 powr (real_of_int ?e + 1)"
    using assms(1) by (simp add: powr_realpow [symmetric] powr_add [symmetric] of_nat_diff)
  also have "\<dots> < 2 powr real_of_int (2 - emin)" using le by simp
  finally have "\<not> 2 powr real_of_int (2 - emin) \<le> \<bar>real_of_int ?r * ?q\<bar>"
    using pos by simp
  then have "ieee_round p emin x = Fin (real_of_int ?r * ?q)"
    using x unfolding ieee_round_def Let_def e by simp
  with pos show ?thesis by blast
qed

section \<open>Evaluating the rounding on small dyadic numbers\<close>

lemma d64r_1: "d64r 1 = Fin 1"
  using d64r_int [of 1] by simp

lemma d64r_minus_1: "d64r (- 1) = Fin (- 1)"
  using d64r_int [of "- 1"] by simp

lemma d64r_numeral: "(numeral n :: int) < 2 ^ 53 \<Longrightarrow> d64r (numeral n) = Fin (numeral n)"
  using d64r_int [of "numeral n"] by simp

lemma d64r_neg_numeral:
  "(numeral n :: int) < 2 ^ 53 \<Longrightarrow> d64r (- numeral n) = Fin (- numeral n)"
  using d64r_int [of "- numeral n"] by simp

lemma d64r_half: "d64r (1 / 2) = Fin (1 / 2)"
  using d64r_dyadic [of 1 1] by simp

lemma d64r_neg_half: "d64r (- (1 / 2)) = Fin (- (1 / 2))"
  using d64r_dyadic [of "- 1" 1] by simp

lemma d64r_numeral_half:
  "(numeral n :: int) < 2 ^ 53 \<Longrightarrow> d64r (numeral n / 2) = Fin (numeral n / 2)"
  using d64r_dyadic [of "numeral n" 1] by simp

lemma d64r_quarter: "d64r (1 / 4) = Fin (1 / 4)"
  using d64r_dyadic [of 1 2] by simp

lemma f32r_half: "f32r (1 / 2) = Fin (1 / 2)"
  using f32r_dyadic [of 1 1] by simp

lemma f32r_neg_half: "f32r (- (1 / 2)) = Fin (- (1 / 2))"
  using f32r_dyadic [of "- 1" 1] by simp

lemmas float_eval =
  d64r_1 d64r_minus_1 d64r_numeral d64r_neg_numeral d64r_half d64r_neg_half
  d64r_numeral_half d64r_quarter f32r_half f32r_neg_half

section \<open>The tables, computed\<close>

lemma init_cubeEdges_eq:
  "init_cubeEdges = [0,1, 0,2, 0,4, 1,3, 1,5, 2,3, 2,6, 3,7, 4,5, 4,6, 5,7, 6,7]"
  by code_simp

lemma and_exp_pos_iff: "(0 < i AND (2::nat) ^ c) = bit i c"
  using and_exp_eq_0_iff_not_bit [of i c] by auto

lemma cross_step_bit:
  "bit (cross_step ce i (2 * n) em) k \<longleftrightarrow>
     bit em k \<or> (k = n \<and> bit i (ce ! (2 * n)) \<noteq> bit i (ce ! (2 * n + 1)))"
  by (auto simp add: cross_step_def Let_def and_exp_pos_iff and_exp_eq_0_iff_not_bit
        bit_or_iff bit_exp_iff drop_bit_eq_div)

lemma fold_cross_step_bit:
  "bit (fold (cross_step ce i) (map (\<lambda>n. 2 * n) [0..<m]) 0) k \<longleftrightarrow>
     k < m \<and> bit i (ce ! (2 * k)) \<noteq> bit i (ce ! (2 * k + 1))"
  by (induction m) (auto simp add: cross_step_bit less_Suc_eq)

lemma edge_mask_of_bit:
  "bit (edge_mask_of ce i) k \<longleftrightarrow>
     k < 12 \<and> bit i (ce ! (2 * k)) \<noteq> bit i (ce ! (2 * k + 1))"
  by (simp add: edge_mask_of_def fold_cross_step_bit)

lemma edgeTable_nth:
  "i < 256 \<Longrightarrow> edgeTable new_SurfaceNets ! i = edge_mask_of init_cubeEdges i"
  by (simp add: new_SurfaceNets_def init_edgeTable_def)

lemma cube_topology_eq:
  "cube_topology = [(0,1),(0,2),(0,4),(1,3),(1,5),(2,3),(2,6),(3,7),(4,5),(4,6),(5,7),(6,7)]"
  by code_simp

lemma edge_corners_topology:
  "j < 12 \<Longrightarrow> edge_corners new_SurfaceNets j = cube_topology ! j"
  apply (simp add: edge_corners_def new_SurfaceNets_def init_cubeEdges_eq cube_topology_eq push_bit_eq_mult)
  apply (simp add: less_Suc_eq numeral_eq_Suc)
  apply auto
  done

lemma init_cubeEdges_lt8: "n < 24 \<Longrightarrow> init_cubeEdges ! n < 8"
proof -
  have "\<forall>c \<in> set init_cubeEdges. c < 8" by (simp add: init_cubeEdges_eq)
  moreover have "length init_cubeEdges = 24" by (simp add: init_cubeEdges_eq)
  ultimately show "n < 24 \<Longrightarrow> init_cubeEdges ! n < 8" by (metis nth_mem)
qed

lemma one_bit_cases: "(\<exists>k<3. n = 2 ^ k) \<longleftrightarrow> n = 1 \<or> n = 2 \<or> n = 4" for n :: nat
proof
  assume "\<exists>k<3. n = 2 ^ k"
  then obtain k where k: "k < 3" and n: "n = 2 ^ k" by blast
  from k have "k = 0 \<or> k = 1 \<or> k = 2" by arith
  with n show "n = 1 \<or> n = 2 \<or> n = 4" by auto
next
  assume "n = 1 \<or> n = 2 \<or> n = 4"
  then have "n = 2 ^ 0 \<or> n = 2 ^ 1 \<or> n = 2 ^ 2" by simp
  moreover have "(0::nat) < 3" "(1::nat) < 3" "(2::nat) < 3" by simp_all
  ultimately show "\<exists>k<3. n = 2 ^ k" by blast
qed

lemma cube_topology_set:
  "set cube_topology = {(a, b). a < b \<and> b < 8 \<and> (\<exists>k<3. a XOR b = 2 ^ k)}"
proof -
  have dom: "\<forall>p \<in> set cube_topology. fst p < 8 \<and> snd p < 8 \<and> fst p < snd p"
    by (simp add: cube_topology_eq)
  have chk: "\<forall>a \<in> set [0..<8]. \<forall>b \<in> set [0..<8].
      ((a, b) \<in> set cube_topology) = (a < b \<and> (a XOR b = 1 \<or> a XOR b = 2 \<or> a XOR b = 4))"
    by code_simp
  show ?thesis
  proof (rule set_eqI)
    fix p :: "nat \<times> nat"
    obtain a b where p: "p = (a, b)" by (cases p)
    show "p \<in> set cube_topology \<longleftrightarrow>
          p \<in> {(a, b). a < b \<and> b < 8 \<and> (\<exists>k<3. a XOR b = 2 ^ k)}"
    proof (cases "a < 8 \<and> b < 8")
      case True
      then have "a \<in> set [0..<8]" "b \<in> set [0..<8]" by simp_all
      with chk have "((a, b) \<in> set cube_topology) =
          (a < b \<and> (a XOR b = 1 \<or> a XOR b = 2 \<or> a XOR b = 4))" by blast
      then show ?thesis using True by (simp add: p one_bit_cases)
    next
      case False
      then have "p \<notin> set cube_topology" using dom p by fastforce
      moreover have "\<not> (a < b \<and> b < 8)" using False by auto
      ultimately show ?thesis by (auto simp add: p)
    qed
  qed
qed

lemma edge_mask_of_lt: "edge_mask_of ce i < 2 ^ 12"
proof -
  have "take_bit 12 (edge_mask_of ce i) = edge_mask_of ce i"
    by (rule bit_eqI) (auto simp add: bit_take_bit_iff edge_mask_of_bit)
  then show ?thesis by (metis take_bit_nat_less_exp)
qed

lemma edge_mask_of_0: "edge_mask_of ce 0 = 0"
  by (rule bit_eqI) (simp add: edge_mask_of_bit)

lemma edge_mask_of_255: "edge_mask_of init_cubeEdges 255 = 0"
proof (rule bit_eqI)
  fix k
  have m: "bit (255::nat) c \<longleftrightarrow> c < 8" for c
    using bit_mask_iff [where ?'a = nat, of 8 c] by (simp add: mask_eq_exp_minus_1)
  show "bit (edge_mask_of init_cubeEdges 255) k \<longleftrightarrow> bit (0::nat) k"
  proof (cases "k < 12")
    case True
    then have "init_cubeEdges ! (2 * k) < 8" "init_cubeEdges ! (2 * k + 1) < 8"
      by (simp_all add: init_cubeEdges_lt8)
    then show ?thesis by (simp add: edge_mask_of_bit m)
  next
    case False
    then show ?thesis by (simp add: edge_mask_of_bit)
  qed
qed

lemma complement_mask_bit: "bit (complement_mask m) c \<longleftrightarrow> c < 8 \<and> \<not> bit m c"
proof -
  have m: "bit (255::int) c \<longleftrightarrow> c < 8" for c
    using bit_mask_iff [where ?'a = int, of 8 c] by (simp add: mask_eq_exp_minus_1)
  have "0 \<le> NOT (int m) AND 255" by simp
  then have "bit (complement_mask m) c \<longleftrightarrow> bit (NOT (int m) AND 255) c"
    by (simp add: complement_mask_def bit_nat_iff)
  also have "\<dots> \<longleftrightarrow> c < 8 \<and> \<not> bit m c"
    by (auto simp add: bit_and_iff bit_not_iff m bit_of_nat_iff)
  finally show ?thesis .
qed

lemma complement_mask_lt: "complement_mask m < 256"
proof -
  have "take_bit 8 (complement_mask m) = complement_mask m"
    by (rule bit_eqI) (auto simp add: bit_take_bit_iff complement_mask_bit)
  then have "complement_mask m < 2 ^ 8" by (metis take_bit_nat_less_exp)
  then show ?thesis by simp
qed

lemma edge_mask_of_complement:
  "edge_mask_of init_cubeEdges (complement_mask m) = edge_mask_of init_cubeEdges m"
proof (rule bit_eqI)
  fix k
  show "bit (edge_mask_of init_cubeEdges (complement_mask m)) k
        \<longleftrightarrow> bit (edge_mask_of init_cubeEdges m) k"
  proof (cases "k < 12")
    case True
    then have "init_cubeEdges ! (2 * k) < 8" "init_cubeEdges ! (2 * k + 1) < 8"
      by (simp_all add: init_cubeEdges_lt8)
    then show ?thesis by (simp add: edge_mask_of_bit complement_mask_bit)
  next
    case False
    then show ?thesis by (simp add: edge_mask_of_bit)
  qed
qed

lemma bit_above_byte:
  fixes m :: nat
  assumes "m < 256" and "8 \<le> c"
  shows "\<not> bit m c"
proof -
  have "(2::nat) ^ 8 \<le> 2 ^ c" using assms(2) by (intro power_increasing) simp_all
  moreover have "(2::nat) ^ 8 = 256" by simp
  ultimately have "m < 2 ^ c" using assms(1) by linarith
  then have "m div 2 ^ c = 0" by simp
  then show ?thesis unfolding bit_iff_odd by simp
qed

lemma bit_255_iff: "bit (255::nat) c \<longleftrightarrow> c < 8"
  using bit_mask_iff [where ?'a = nat, of 8 c] by (simp add: mask_eq_exp_minus_1)

lemma uniform_mask:
  fixes m :: nat
  assumes "m < 256" and "\<forall>c<8. bit m c = bit m 0"
  shows "m = 0 \<or> m = 255"
proof (cases "bit m 0")
  case b0: True
  have "m = 255"
  proof (rule bit_eqI)
    fix c show "bit m c \<longleftrightarrow> bit (255::nat) c"
    proof (cases "c < 8")
      case True
      with assms(2) have "bit m c = bit m 0" by blast
      with b0 True show ?thesis unfolding bit_255_iff by blast
    next
      case False
      then have "\<not> bit m c" using bit_above_byte [OF assms(1), of c] by simp
      with False show ?thesis unfolding bit_255_iff by blast
    qed
  qed
  then show ?thesis by blast
next
  case b0: False
  have z: "\<not> bit (0::nat) c" for c by simp
  have "m = 0"
  proof (rule bit_eqI)
    fix c show "bit m c \<longleftrightarrow> bit (0::nat) c"
    proof (cases "c < 8")
      case True
      with assms(2) have "bit m c = bit m 0" by blast
      with b0 z [of c] show ?thesis by blast
    next
      case False
      then have "\<not> bit m c" using bit_above_byte [OF assms(1), of c] by simp
      with z [of c] show ?thesis by blast
    qed
  qed
  then show ?thesis by blast
qed

lemma edge_mask_of_nonzero:
  assumes "0 < m" and "m < 255"
  shows "edge_mask_of init_cubeEdges m \<noteq> 0"
proof
  assume z: "edge_mask_of init_cubeEdges m = 0"
  have e: "bit m (init_cubeEdges ! (2 * k)) = bit m (init_cubeEdges ! (2 * k + 1))"
    if "k < 12" for k
    using edge_mask_of_bit [of init_cubeEdges m k] that by (simp add: z)
  have b1: "bit m 1 = bit m 0" using e [of 0] by (simp add: init_cubeEdges_eq)
  have b2: "bit m 2 = bit m 0" using e [of 1] by (simp add: init_cubeEdges_eq)
  have b4: "bit m 4 = bit m 0" using e [of 2] by (simp add: init_cubeEdges_eq)
  have b3: "bit m 3 = bit m 1" using e [of 3] by (simp add: init_cubeEdges_eq)
  have b5: "bit m 5 = bit m 1" using e [of 4] by (simp add: init_cubeEdges_eq)
  have b6: "bit m 6 = bit m 2" using e [of 6] by (simp add: init_cubeEdges_eq)
  have b7: "bit m 7 = bit m 3" using e [of 7] by (simp add: init_cubeEdges_eq)
  have "bit m c = bit m 0" if "c < 8" for c
  proof -
    from that have "c = 0 \<or> c = 1 \<or> c = 2 \<or> c = 3 \<or> c = 4 \<or> c = 5 \<or> c = 6 \<or> c = 7"
      by arith
    then show ?thesis using b1 b2 b3 b4 b5 b6 b7 by (elim disjE) simp_all
  qed
  then have u: "\<forall>c<8. bit m c = bit m 0" by blast
  have "m < 256" using assms(2) by simp
  from uniform_mask [OF this u] have "m = 0 \<or> m = 255" .
  with assms show False by linarith
qed

section \<open>Counting the crossing edges\<close>

lemma edge_accum_fst:
  "fst (edge_accum sn grid em i cv) = (if bit em i then fst cv + 1 else fst cv)"
  by (cases cv) (simp add: edge_accum_def Let_def and_exp_eq_0_iff_not_bit push_bit_eq_mult)

lemma fold_edge_accum_fst:
  "fst (fold (edge_accum sn grid em) [0..<n] cv) = fst cv + length (filter (bit em) [0..<n])"
  by (induction n) (simp_all add: edge_accum_fst)

lemma accumulate_fst:
  "fst (accumulate sn grid em) = length (filter (bit em) [0..<12])"
  by (simp add: accumulate_def fold_edge_accum_fst)

lemma some_bit_below:
  fixes em :: nat
  assumes "em \<noteq> 0" and "em < 2 ^ n"
  shows "filter (bit em) [0..<n] \<noteq> []"
proof -
  have "\<exists>k. bit em k"
  proof (rule ccontr)
    assume "\<not> (\<exists>k. bit em k)"
    then have "em = 0" by (intro bit_eqI) simp
    with assms(1) show False by simp
  qed
  then obtain k where k: "bit em k" ..
  have "k < n"
  proof (rule ccontr)
    assume "\<not> k < n"
    then have "(2::nat) ^ n \<le> 2 ^ k" by (intro power_increasing) simp_all
    with assms(2) have "em < 2 ^ k" by linarith
    then have "em div 2 ^ k = 0" by simp
    with k show False unfolding bit_iff_odd by simp
  qed
  with k have "k \<in> set (filter (bit em) [0..<n])" by simp
  then show ?thesis by (metis empty_iff empty_set)
qed

lemma crossing_count_pos:
  assumes "0 < m" and "m < 255"
  shows "0 < fst (accumulate sn grid (edgeTable new_SurfaceNets ! m))"
proof -
  have m: "edgeTable new_SurfaceNets ! m = edge_mask_of init_cubeEdges m"
    using assms(2) by (simp add: edgeTable_nth)
  have "filter (bit (edge_mask_of init_cubeEdges m)) [0..<12] \<noteq> []"
    using edge_mask_of_nonzero [OF assms] edge_mask_of_lt [of init_cubeEdges m]
    by (rule some_bit_below)
  then show ?thesis by (simp add: m accumulate_fst)
qed

lemma cubeEdges_new: "cubeEdges new_SurfaceNets = init_cubeEdges"
  by (simp add: new_SurfaceNets_def)

lemma accumulate_le: "fst (accumulate sn grid em) \<le> 12"
proof -
  have "length (filter (bit em) [0..<12]) \<le> length [0..<12]" by (rule length_filter_le)
  then show ?thesis by (simp add: accumulate_fst)
qed

lemma reciprocal_count:
  assumes "0 < n" and "n \<le> 12"
  shows "\<exists>r. 0 < r \<and> d64r (1 / real n) = Fin r"
proof -
  have n: "1 \<le> real n" "real n \<le> 12" using assms by simp_all
  have lo: "2 powr real_of_int (- 1022) \<le> 1 / real n"
  proof -
    have "2 powr real_of_int (- 1022) \<le> 2 powr (- 4)" by (simp del: powr_minus)
    also have "\<dots> = 1 / 16" by (simp add: powr_minus_divide)
    also have "\<dots> \<le> 1 / real n" using n by (simp add: field_simps)
    finally show ?thesis .
  qed
  have hi: "1 / real n < 2 powr real_of_int (1 - (- 1022))"
  proof -
    have "1 / real n \<le> 1" using n by simp
    also have "\<dots> < 2 powr real_of_int (1 - (- 1022))" by simp
    finally show ?thesis .
  qed
  from ieee_round_normal [of 53 "- 1022" "1 / real n", OF _ lo hi]
  obtain r where "0 < r" "ieee_round 53 (- 1022) (1 / real n) = Fin r" by auto
  then show ?thesis using assms by (auto simp add: d64r_def)
qed

section \<open>The edge-crossing table\<close>

text \<open>
  Claim C4. For every corner mask \<open>i < 256\<close> and edge \<open>j < 12\<close>, bit \<open>j\<close> of entry \<open>i\<close>
  of the edge table is set iff the two corners of edge \<open>j\<close> differ in their
  inside/outside status under \<open>i\<close>. The 12 edges stored in \<open>cubeEdges\<close> are exactly the
  pairs of corners \<open>a < b < 8\<close> that differ in one bit, each once. Entries \<open>0x00\<close> and
  \<open>0xFF\<close> are zero.
\<close>
theorem edgeTable_bit_iff_crossing:
  assumes "i < 256" and "j < 12"
  shows "(bit (edgeTable new_SurfaceNets ! i) j \<longleftrightarrow>
            inside i (fst (edge_corners new_SurfaceNets j))
              \<noteq> inside i (snd (edge_corners new_SurfaceNets j)))
         \<and> map (edge_corners new_SurfaceNets) [0..<12] = cube_topology
         \<and> distinct cube_topology
         \<and> set cube_topology = {(a, b). a < b \<and> b < 8 \<and> (\<exists>k<3. a XOR b = 2 ^ k)}
         \<and> edgeTable new_SurfaceNets ! 0 = 0
         \<and> edgeTable new_SurfaceNets ! 255 = 0"
proof -
  have "bit (edgeTable new_SurfaceNets ! i) j \<longleftrightarrow>
          inside i (fst (edge_corners new_SurfaceNets j))
            \<noteq> inside i (snd (edge_corners new_SurfaceNets j))"
    using assms
    by (simp add: edgeTable_nth edge_mask_of_bit inside_def edge_corners_def
          cubeEdges_new push_bit_eq_mult mult.commute)
  moreover have "map (edge_corners new_SurfaceNets) [0..<12] = cube_topology"
  proof (rule nth_equalityI)
    show "length (map (edge_corners new_SurfaceNets) [0..<12]) = length cube_topology"
      by (simp add: cube_topology_eq)
  next
    fix k assume "k < length (map (edge_corners new_SurfaceNets) [0..<12])"
    then have "k < 12" by simp
    then show "map (edge_corners new_SurfaceNets) [0..<12] ! k = cube_topology ! k"
      by (simp add: edge_corners_topology)
  qed
  moreover have "distinct cube_topology" by (simp add: cube_topology_eq)
  moreover have "edgeTable new_SurfaceNets ! 0 = 0"
    by (simp add: edgeTable_nth edge_mask_of_0)
  moreover have "edgeTable new_SurfaceNets ! 255 = 0"
    by (simp add: edgeTable_nth edge_mask_of_255)
  ultimately show ?thesis using cube_topology_set by blast
qed

theorem edgeTable_bit_iff_crossing_witness:
  "(5::nat) < 256 \<and> (0::nat) < 12
   \<and> edge_corners new_SurfaceNets 0 = (0, 1) \<and> inside 5 0 \<and> \<not> inside 5 1
   \<and> bit (edgeTable new_SurfaceNets ! 5) 0"
proof -
  have c: "edge_corners new_SurfaceNets 0 = (0, 1)"
    by (simp add: edge_corners_topology cube_topology_eq)
  have i: "inside 5 0 \<and> \<not> inside 5 1" by (simp add: inside_def)
  show ?thesis
    using edgeTable_bit_iff_crossing [of 5 0] c i by simp
qed

text \<open>
  Claim C6. For every 8-bit corner mask, the entry of the complemented mask
  \<^verbatim>\<open>~mask & 0xFF\<close> equals the entry of the mask.
\<close>
theorem edgeTable_complement_invariant:
  assumes "m < 256"
  shows "edgeTable new_SurfaceNets ! complement_mask m = edgeTable new_SurfaceNets ! m"
  using assms by (simp add: edgeTable_nth complement_mask_lt edge_mask_of_complement)

theorem edgeTable_complement_invariant_witness:
  "(5::nat) < 256 \<and> complement_mask 5 = 250
   \<and> edgeTable new_SurfaceNets ! 250 = edgeTable new_SurfaceNets ! 5"
  using edgeTable_complement_invariant [of 5] by (simp add: complement_mask_def)

text \<open>
  Claim C8. For every corner mask strictly between \<open>0x00\<close> and \<open>0xFF\<close> the entry of the
  edge table is not zero, the loop over the 12 edges counts at least one crossing edge
  (whatever the samples), and the reciprocal \<open>1.0 / vertCount\<close> is the quotient rounded
  to binary64, a finite, positive number.
\<close>
theorem nonuniform_cell_has_crossing_edge:
  assumes "0 < m" and "m < 255"
  shows "edgeTable new_SurfaceNets ! m \<noteq> 0
         \<and> 0 < fst (accumulate new_SurfaceNets grid (edgeTable new_SurfaceNets ! m))
         \<and> jdiv (Fin 1) (Fin (real (fst (accumulate new_SurfaceNets grid
                                        (edgeTable new_SurfaceNets ! m)))))
             = d64r (1 / real (fst (accumulate new_SurfaceNets grid
                                        (edgeTable new_SurfaceNets ! m))))
         \<and> (\<exists>r. 0 < r
                \<and> d64r (1 / real (fst (accumulate new_SurfaceNets grid
                                           (edgeTable new_SurfaceNets ! m)))) = Fin r)"
proof -
  let ?n = "fst (accumulate new_SurfaceNets grid (edgeTable new_SurfaceNets ! m))"
  have pos: "0 < ?n" by (rule crossing_count_pos [OF assms])
  have "edgeTable new_SurfaceNets ! m \<noteq> 0"
    using assms edge_mask_of_nonzero [OF assms] by (simp add: edgeTable_nth)
  moreover have "jdiv (Fin 1) (Fin (real ?n)) = d64r (1 / real ?n)"
    using pos by simp
  moreover have "\<exists>r. 0 < r \<and> d64r (1 / real ?n) = Fin r"
    using reciprocal_count [OF pos accumulate_le] .
  ultimately show ?thesis using pos by blast
qed

theorem nonuniform_cell_has_crossing_edge_witness:
  "(0::nat) < 1 \<and> (1::nat) < 255
   \<and> edgeTable new_SurfaceNets ! 1 \<noteq> 0
   \<and> 0 < fst (accumulate new_SurfaceNets (replicate 8 (Fin 1)) (edgeTable new_SurfaceNets ! 1))"
  using nonuniform_cell_has_crossing_edge [of 1 "replicate 8 (Fin 1)"] by simp

section \<open>The march over the volume\<close>

lemma upt_2: "[0..<2] = [0, 1]" by code_simp
lemma upt_3: "[0..<3] = [0, 1, 2]" by code_simp
lemma upt_8: "[0..<8] = [0, 1, 2, 3, 4, 5, 6, 7]" by code_simp
lemma upt_12: "[0..<12] = [0, 1, 2, 3, 4, 5, 6, 7, 8, 9, 10, 11]" by code_simp
lemma replicate_8: "replicate 8 v = [v, v, v, v, v, v, v, v]" by (simp add: numeral_eq_Suc)

lemma sample_corners_eq:
  "sample_corners f pos scale n =
     (8, corner_mask (map (corner_sample f pos scale) [0..<8]),
      map fround (map (corner_sample f pos scale) [0..<8]), n + 8)"
  by (cases pos; cases scale)
     (simp add: sample_corners_def sample_step_def corner_mask_def corner_sample_def
        upt_2 upt_8 replicate_8 Let_def bit_Suc_0_iff split del: if_split cong: if_cong)

lemma cell_calls: "calls (cell sn f b0 scale z y x st) = calls st + 8"
  by (cases b0; cases scale) (simp add: cell_def sample_corners_eq Let_def)

lemma fold_calls:
  assumes "\<And>i st. calls (step i st) = calls st + k"
  shows "calls (fold step [0..<n] st) = calls st + n * k"
  by (induction n) (simp_all add: assms)

lemma extract_mesh_calls:
  "calls (extract_mesh sn f bounds res) = 8 * nat (res - 1) ^ 3"
proof -
  let ?n = "nat (res - 1)"
  let ?sc = "cell_size bounds res"
  have x: "calls (fold (\<lambda>x. cell sn f (fst bounds) ?sc z y x) [0..<?n] st) = calls st + ?n * 8"
    for z y st by (rule fold_calls) (rule cell_calls)
  have y: "calls (fold (\<lambda>y. fold (\<lambda>x. cell sn f (fst bounds) ?sc z y x) [0..<?n]) [0..<?n] st)
             = calls st + ?n * (?n * 8)" for z st
    by (rule fold_calls) (rule x)
  have "calls (fold (\<lambda>z. fold (\<lambda>y. fold (\<lambda>x. cell sn f (fst bounds) ?sc z y x)
           [0..<?n]) [0..<?n]) [0..<?n] st) = calls st + ?n * (?n * (?n * 8))" for st
    by (rule fold_calls) (rule y)
  then show ?thesis
    by (simp add: extract_mesh_def Let_def power3_eq_cube)
qed

lemma quad_missing:
  "vb k0 = None \<or> vb k1 = None \<or> vb k2 = None \<or> vb k3 = None
   \<Longrightarrow> quad vb cm k0 k1 k2 k3 = []"
  by (auto simp add: quad_def split: option.splits)

lemma quad_ok:
  assumes "\<forall>k v. vb k = Some v \<longrightarrow> v < n"
  shows "\<forall>f \<in> set (quad vb cm k0 k1 k2 k3). face_ok n f"
  using assms by (auto simp add: quad_def split: option.splits)

lemma x_faces_ok:
  assumes "\<forall>k v. vb k = Some v \<longrightarrow> v < n"
  shows "\<forall>f \<in> set (x_faces vb em cm x y z). face_ok n f"
proof (cases "em AND 1 \<noteq> 0 \<and> 0 < y \<and> 0 < z")
  case True
  then have "x_faces vb em cm x y z =
      quad vb cm (getKey x y z) (getKey x (y - 1) z) (getKey x (y - 1) (z - 1)) (getKey x y (z - 1))"
    by (simp add: x_faces_def)
  then show ?thesis by (simp only:) (rule quad_ok [OF assms])
next
  case False
  then have "x_faces vb em cm x y z = []" by (auto simp add: x_faces_def)
  then show ?thesis by simp
qed

lemma y_faces_ok:
  assumes "\<forall>k v. vb k = Some v \<longrightarrow> v < n"
  shows "\<forall>f \<in> set (y_faces vb em cm x y z). face_ok n f"
proof (cases "em AND 2 \<noteq> 0 \<and> 0 < x \<and> 0 < z")
  case True
  then have "y_faces vb em cm x y z =
      quad vb cm (getKey x y z) (getKey x y (z - 1)) (getKey (x - 1) y (z - 1)) (getKey (x - 1) y z)"
    by (simp add: y_faces_def)
  then show ?thesis by (simp only:) (rule quad_ok [OF assms])
next
  case False
  then have "y_faces vb em cm x y z = []" by (auto simp add: y_faces_def)
  then show ?thesis by simp
qed

lemma z_faces_ok:
  assumes "\<forall>k v. vb k = Some v \<longrightarrow> v < n"
  shows "\<forall>f \<in> set (z_faces vb em cm x y z). face_ok n f"
proof (cases "em AND 4 \<noteq> 0 \<and> 0 < x \<and> 0 < y")
  case True
  then have "z_faces vb em cm x y z =
      quad vb cm (getKey x y z) (getKey (x - 1) y z) (getKey (x - 1) (y - 1) z) (getKey x (y - 1) z)"
    by (simp add: z_faces_def)
  then show ?thesis by (simp only:) (rule quad_ok [OF assms])
next
  case False
  then have "z_faces vb em cm x y z = []" by (auto simp add: z_faces_def)
  then show ?thesis by simp
qed

lemma face_ok_mono: "face_ok n f \<Longrightarrow> n \<le> m \<Longrightarrow> face_ok m f"
  by (cases f) auto

text \<open>What one cell does to the state, in one equation.\<close>

lemma cell_eq:
  "cell sn f (b0x, b0y, b0z) (sx, sy, sz) z y x st =
     (let pos = (jadd b0x (jmul (Fin (real x)) sx),
                 jadd b0y (jmul (Fin (real y)) sy),
                 jadd b0z (jmul (Fin (real z)) sz));
          samples = map (corner_sample f pos (sx, sy, sz)) [0..<8];
          cm = corner_mask samples;
          grid = map fround samples
      in if cm = 0 \<or> cm = 255 then st\<lparr>calls := calls st + 8\<rparr>
         else
           let em = edgeTable sn ! cm;
               vb = (vertexBuffer st)(getKey x y z \<mapsto> length (vertices st))
           in \<lparr>vertices = vertices st @ [cell_vertex sn grid em pos (sx, sy, sz)],
               faces = faces st @ x_faces vb em cm x y z @ y_faces vb em cm x y z
                                @ z_faces vb em cm x y z,
               vertexBuffer = vb, calls = calls st + 8\<rparr>)"
  by (simp add: cell_def sample_corners_eq Let_def)

lemma cell_ok:
  assumes "mesh_ok st"
  shows "mesh_ok (cell sn f b0 scale z y x st)"
proof -
  obtain b0x b0y b0z sx sy sz where b: "b0 = (b0x, b0y, b0z)" "scale = (sx, sy, sz)"
    by (cases b0; cases scale) auto
  let ?n = "Suc (length (vertices st))"
  let ?vb = "(vertexBuffer st)(getKey x y z \<mapsto> length (vertices st))"
  have vb: "\<forall>k v. ?vb k = Some v \<longrightarrow> v < ?n"
    using assms by (auto simp add: mesh_ok_def less_Suc_eq)
  have old: "\<forall>f \<in> set (faces st). face_ok ?n f"
    using assms by (auto simp add: mesh_ok_def intro: face_ok_mono)
  let ?pos = "(jadd b0x (jmul (Fin (real x)) sx), jadd b0y (jmul (Fin (real y)) sy),
               jadd b0z (jmul (Fin (real z)) sz))"
  let ?cm = "corner_mask (map (corner_sample f ?pos (sx, sy, sz)) [0..<8])"
  show ?thesis
  proof (cases "?cm = 0 \<or> ?cm = 255")
    case True
    then have "cell sn f b0 scale z y x st = st\<lparr>calls := calls st + 8\<rparr>"
      unfolding b cell_eq Let_def by simp
    then show ?thesis using assms by (simp add: mesh_ok_def)
  next
    case False
    let ?em = "edgeTable sn ! ?cm"
    have v: "length (vertices (cell sn f b0 scale z y x st)) = ?n"
      and f: "faces (cell sn f b0 scale z y x st) =
               faces st @ (x_faces ?vb ?em ?cm x y z @ y_faces ?vb ?em ?cm x y z
                          @ z_faces ?vb ?em ?cm x y z)"
      and m: "vertexBuffer (cell sn f b0 scale z y x st) = ?vb"
      using False unfolding b cell_eq Let_def by simp_all
    show ?thesis
      unfolding mesh_ok_def v f m set_append ball_Un
      by (intro conjI vb old x_faces_ok [OF vb] y_faces_ok [OF vb] z_faces_ok [OF vb])
  qed
qed

lemma fold_ok:
  assumes "\<And>i st. mesh_ok st \<Longrightarrow> mesh_ok (step i st)" and "mesh_ok st"
  shows "mesh_ok (fold step xs st)"
  using assms(2) by (induction xs arbitrary: st) (simp_all add: assms(1))

lemma extract_mesh_ok: "mesh_ok (extract_mesh sn f bounds res)"
proof -
  have "mesh_ok \<lparr>vertices = [], faces = [], vertexBuffer = Map.empty, calls = 0\<rparr>"
    by (simp add: mesh_ok_def)
  then show ?thesis
    unfolding extract_mesh_def Let_def
    by (intro fold_ok cell_ok)
qed

section \<open>Invocations of the field\<close>

text \<open>
  Claim C1, as amended. Every cell invokes the field once for each of its 8 corners and
  there are \<open>(resolution - 1)\<^sup>3\<close> cells, so one extraction invokes the field exactly
  \<open>8 * (resolution - 1)\<^sup>3\<close> times (never, when \<open>resolution \<le> 1\<close>), whatever the field and
  the bounds.
\<close>

theorem extract_mesh_field_calls:
  "calls (extract_mesh sn densityFunc bounds res) = 8 * nat (res - 1) ^ 3"
  by (rule extract_mesh_calls)

text \<open>
  Claim C1 as stated (\<open>resolution\<^sup>3\<close> invocations) fails at resolution 3: the 8 cells
  invoke the field 64 times, not 27.
\<close>

theorem extract_mesh_calls_not_cubed:
  "calls (extract_mesh new_SurfaceNets (sdf (new_TinyPlanet (Fin 0, Fin 0, Fin 0) (Fin 10) 3))
            ((Fin (- 13), Fin (- 13), Fin (- 13)), (Fin 13, Fin 13, Fin 13)) 3) \<noteq> 3 ^ 3"
  by (simp add: extract_mesh_calls)

section \<open>The vertex of a surface-crossing cell\<close>

lemma and_exp_nat: "(e::nat) AND 2 ^ j = (if bit e j then 2 ^ j else 0)"
  by (rule bit_eqI) (auto simp add: bit_and_iff bit_exp_iff)

lemma axis_step_eq:
  "axis_step e0 e1 t j (2 ^ j, v) =
     (2 ^ Suc j,
      v[j := jadd (v ! j)
               (if bit e0 j = bit e1 j then Fin (corner_coord e0 j)
                else if bit e0 j then jsub (Fin 1) t else t)])"
  by (simp add: axis_step_def Let_def and_exp_nat corner_coord_def push_bit_eq_mult)

lemma axis_fold:
  "snd (fold (axis_step e0 e1 t) [0..<3] (1, [v0, v1, v2])) =
     [jadd v0 (if bit e0 0 = bit e1 0 then Fin (corner_coord e0 0)
               else if bit e0 0 then jsub (Fin 1) t else t),
      jadd v1 (if bit e0 1 = bit e1 1 then Fin (corner_coord e0 1)
               else if bit e0 1 then jsub (Fin 1) t else t),
      jadd v2 (if bit e0 2 = bit e1 2 then Fin (corner_coord e0 2)
               else if bit e0 2 then jsub (Fin 1) t else t)]"
    (is "_ = [?b0, ?b1, ?b2]")
proof -
  have s0: "axis_step e0 e1 t 0 (1, [v0, v1, v2]) = (2, [?b0, v1, v2])"
    using axis_step_eq [of e0 e1 t 0 "[v0, v1, v2]"] by simp
  have s1: "axis_step e0 e1 t 1 (2, [?b0, v1, v2]) = (4, [?b0, ?b1, v2])"
    using axis_step_eq [of e0 e1 t 1 "[?b0, v1, v2]"] by simp
  have s2: "axis_step e0 e1 t 2 (4, [?b0, ?b1, v2]) = (8, [?b0, ?b1, ?b2])"
    using axis_step_eq [of e0 e1 t 2 "[?b0, ?b1, v2]"] by simp
  have "fold (axis_step e0 e1 t) [0..<3] (1, [v0, v1, v2]) =
          axis_step e0 e1 t 2 (axis_step e0 e1 t 1 (axis_step e0 e1 t 0 (1, [v0, v1, v2])))"
    by (simp add: upt_3 del: One_nat_def)
  then show ?thesis by (simp only: s0 s1 s2 snd_conv)
qed

lemma fold_mask_bit:
  "bit (fold (\<lambda>g m. m OR (if P g then push_bit g 1 else 0)) [0..<n] (0::nat)) c
     \<longleftrightarrow> c < n \<and> P c"
  by (induction n) (auto simp add: bit_or_iff bit_exp_iff push_bit_eq_mult less_Suc_eq)

lemma corner_mask_bit: "bit (corner_mask grid) c \<longleftrightarrow> c < 8 \<and> jlt (grid ! c) (Fin 0)"
  unfolding corner_mask_def by (rule fold_mask_bit)

lemma corner_mask_lt: "corner_mask grid < 256"
proof -
  have "take_bit 8 (corner_mask grid) = corner_mask grid"
    by (rule bit_eqI) (auto simp add: bit_take_bit_iff corner_mask_bit)
  then have "corner_mask grid < 2 ^ 8" by (metis take_bit_nat_less_exp)
  then show ?thesis by simp
qed

lemma topology_corners:
  assumes "i < 12"
  shows "cubeEdges new_SurfaceNets ! (push_bit 1 i) = fst (cube_topology ! i)"
    and "cubeEdges new_SurfaceNets ! (push_bit 1 i + 1) = snd (cube_topology ! i)"
    and "fst (cube_topology ! i) < 8" and "snd (cube_topology ! i) < 8"
proof -
  have e: "edge_corners new_SurfaceNets i = cube_topology ! i"
    using assms by (rule edge_corners_topology)
  show "cubeEdges new_SurfaceNets ! (push_bit 1 i) = fst (cube_topology ! i)"
    and "cubeEdges new_SurfaceNets ! (push_bit 1 i + 1) = snd (cube_topology ! i)"
    by (simp_all add: e [symmetric] edge_corners_def)
  have "2 * i < 24" "2 * i + 1 < 24" using assms by simp_all
  then have "init_cubeEdges ! (2 * i) < 8" "init_cubeEdges ! (2 * i + 1) < 8"
    by (simp_all only: init_cubeEdges_lt8)
  then show "fst (cube_topology ! i) < 8" and "snd (cube_topology ! i) < 8"
    by (simp_all add: e [symmetric] edge_corners_def cubeEdges_new push_bit_eq_mult
          mult.commute)
qed

lemma edge_accum_skip: "\<not> bit em i \<Longrightarrow> edge_accum sn grid em i cv = cv"
  by (cases cv) (simp add: edge_accum_def and_exp_eq_0_iff_not_bit push_bit_eq_mult)

lemma edge_accum_crossing:
  assumes "i < 12" and "bit em i"
  shows "edge_accum new_SurfaceNets g em i (c, [v0, v1, v2]) =
           (c + 1, [jadd v0 (crossing_coord g i 0), jadd v1 (crossing_coord g i 1),
                    jadd v2 (crossing_coord g i 2)])"
proof -
  let ?e0 = "fst (cube_topology ! i)" and ?e1 = "snd (cube_topology ! i)"
  let ?t = "jdiv (g ! ?e0) (jsub (g ! ?e0) (g ! ?e1))"
  have b: "em AND push_bit i 1 \<noteq> 0"
    using assms(2) by (simp add: and_exp_eq_0_iff_not_bit push_bit_eq_mult)
  have "edge_accum new_SurfaceNets g em i (c, [v0, v1, v2]) =
          (c + 1, snd (fold (axis_step ?e0 ?e1 ?t) [0..<3] (1, [v0, v1, v2])))"
    unfolding edge_accum_def Let_def topology_corners(1,2) [OF assms(1)]
    using b by simp
  then show ?thesis
    by (simp only: axis_fold crossing_coord_def crossing_param_def Let_def)
qed

lemma fold_edge_accum:
  assumes "n \<le> 12"
  shows "fold (edge_accum new_SurfaceNets g em) [0..<n] (c, [v0, v1, v2]) =
     (c + length (filter (bit em) [0..<n]),
      [foldl jadd v0 (map (\<lambda>i. crossing_coord g i 0) (filter (bit em) [0..<n])),
       foldl jadd v1 (map (\<lambda>i. crossing_coord g i 1) (filter (bit em) [0..<n])),
       foldl jadd v2 (map (\<lambda>i. crossing_coord g i 2) (filter (bit em) [0..<n]))])"
  using assms
proof (induction n)
  case 0
  then show ?case by simp
next
  case (Suc n)
  then have ih: "fold (edge_accum new_SurfaceNets g em) [0..<n] (c, [v0, v1, v2]) =
     (c + length (filter (bit em) [0..<n]),
      [foldl jadd v0 (map (\<lambda>i. crossing_coord g i 0) (filter (bit em) [0..<n])),
       foldl jadd v1 (map (\<lambda>i. crossing_coord g i 1) (filter (bit em) [0..<n])),
       foldl jadd v2 (map (\<lambda>i. crossing_coord g i 2) (filter (bit em) [0..<n]))])"
    by simp
  show ?case
  proof (cases "bit em n")
    case True
    have n: "n < 12" using Suc.prems by simp
    show ?thesis
      using True by (simp add: ih edge_accum_crossing [OF n True])
  next
    case False
    then show ?thesis by (simp add: ih edge_accum_skip)
  qed
qed

lemma edgeTable_bit:
  assumes "m < 256" and "i < 12"
  shows "bit (edgeTable new_SurfaceNets ! m) i \<longleftrightarrow>
           inside m (fst (cube_topology ! i)) \<noteq> inside m (snd (cube_topology ! i))"
proof -
  have "bit (edgeTable new_SurfaceNets ! m) i \<longleftrightarrow>
          bit m (init_cubeEdges ! (2 * i)) \<noteq> bit m (init_cubeEdges ! (2 * i + 1))"
    using assms by (simp add: edgeTable_nth edge_mask_of_bit)
  moreover have "init_cubeEdges ! (2 * i) = fst (cube_topology ! i)"
    "init_cubeEdges ! (2 * i + 1) = snd (cube_topology ! i)"
    using topology_corners(1,2) [OF assms(2)]
    by (simp_all add: cubeEdges_new push_bit_eq_mult mult.commute)
  ultimately show ?thesis by (simp add: inside_def)
qed

lemma edgeTable_bit_ge: "m < 256 \<Longrightarrow> 12 \<le> i \<Longrightarrow> \<not> bit (edgeTable new_SurfaceNets ! m) i"
  by (simp add: edgeTable_nth edge_mask_of_bit)

lemma crossing_edges_eq:
  assumes "m < 256"
  shows "filter (bit (edgeTable new_SurfaceNets ! m)) [0..<12] = crossing_edges m"
  unfolding crossing_edges_def
  by (rule filter_cong) (simp_all add: edgeTable_bit [OF assms])

lemma accumulate_eq:
  assumes "m < 256"
  shows "accumulate new_SurfaceNets g (edgeTable new_SurfaceNets ! m) =
      (length (crossing_edges m),
       [float_sum (map (\<lambda>i. crossing_coord g i 0) (crossing_edges m)),
        float_sum (map (\<lambda>i. crossing_coord g i 1) (crossing_edges m)),
        float_sum (map (\<lambda>i. crossing_coord g i 2) (crossing_edges m))])"
  unfolding accumulate_def float_sum_def
  using fold_edge_accum [OF order_refl, of g "edgeTable new_SurfaceNets ! m" 0 "Fin 0" "Fin 0" "Fin 0"]
  by (simp add: crossing_edges_eq [OF assms])

lemma cell_vertex_eq:
  assumes "m < 256"
  shows "cell_vertex new_SurfaceNets g (edgeTable new_SurfaceNets ! m) (px, py, pz) (sx, sy, sz) =
         (jadd px (jmul (rounded_mean g m 0) sx),
          jadd py (jmul (rounded_mean g m 1) sy),
          jadd pz (jmul (rounded_mean g m 2) sz))"
  by (simp add: cell_vertex_def accumulate_eq [OF assms] rounded_mean_def Let_def)

lemma cell_size_eq:
  "cell_size ((ax, ay, az), (bx, by, bz)) res =
     (float_cell_size ax bx res, float_cell_size ay by res, float_cell_size az bz res)"
  by (simp add: cell_size_def float_cell_size_def)

lemma cell_mean_vertex:
  assumes "0 < corner_mask (cell_samples f ((ax, ay, az), (bx, by, bz)) res x y z)"
    and "corner_mask (cell_samples f ((ax, ay, az), (bx, by, bz)) res x y z) < 255"
  shows "vertices (cell new_SurfaceNets f (ax, ay, az)
                     (cell_size ((ax, ay, az), (bx, by, bz)) res) z y x st) =
         vertices st @ [mean_vertex f ((ax, ay, az), (bx, by, bz)) res x y z]"
proof -
  let ?s = "cell_samples f ((ax, ay, az), (bx, by, bz)) res x y z"
  have nz: "\<not> (corner_mask ?s = 0 \<or> corner_mask ?s = 255)"
    using assms by simp
  have s: "map (corner_sample f
              (jadd ax (jmul (Fin (real x)) (float_cell_size ax bx res)),
               jadd ay (jmul (Fin (real y)) (float_cell_size ay by res)),
               jadd az (jmul (Fin (real z)) (float_cell_size az bz res)))
              (float_cell_size ax bx res, float_cell_size ay by res, float_cell_size az bz res))
            [0..<8] = ?s"
    by (simp add: cell_samples_def float_origin_def)
  have v: "mean_vertex f ((ax, ay, az), (bx, by, bz)) res x y z =
      (jadd (jadd ax (jmul (Fin (real x)) (float_cell_size ax bx res)))
         (jmul (rounded_mean (map fround ?s) (corner_mask ?s) 0) (float_cell_size ax bx res)),
       jadd (jadd ay (jmul (Fin (real y)) (float_cell_size ay by res)))
         (jmul (rounded_mean (map fround ?s) (corner_mask ?s) 1) (float_cell_size ay by res)),
       jadd (jadd az (jmul (Fin (real z)) (float_cell_size az bz res)))
         (jmul (rounded_mean (map fround ?s) (corner_mask ?s) 2) (float_cell_size az bz res)))"
    by (simp add: mean_vertex_def float_origin_def Let_def)
  show ?thesis
    using nz
    unfolding cell_size_eq cell_eq Let_def s v
    by (simp add: cell_vertex_eq [OF corner_mask_lt])
qed

text \<open>
  Claim C5, as amended. For a cell whose corner mask is strictly between \<open>0x00\<close> and
  \<open>0xFF\<close>, the vertex that the cell pushes is, on each axis and in binary64 arithmetic,
  the cell origin plus the cell size times the mean of the crossing points of the
  crossing edges: the running sum of their coordinates times the reciprocal of their
  number, with \<open>t = g0 / (g0 - g1)\<close> taken from the two corner samples as the
  \<open>Float32Array\<close> holds them. Whatever the field, the bounds and the resolution.
\<close>

theorem emitted_vertex_is_rounded_mean_of_crossings:
  assumes "0 < corner_mask (cell_samples densityFunc bounds res x y z)"
    and "corner_mask (cell_samples densityFunc bounds res x y z) < 255"
  shows "vertices (cell new_SurfaceNets densityFunc (fst bounds) (cell_size bounds res) z y x st) =
         vertices st @ [mean_vertex densityFunc bounds res x y z]"
proof -
  obtain ax ay az bx "by" bz where b: "bounds = ((ax, ay, az), (bx, by, bz))"
    by (cases bounds) auto
  show ?thesis
    using assms unfolding b fst_conv by (rule cell_mean_vertex)
qed

subsection \<open>Two cells, evaluated\<close>

lemma crossing_edges_85: "crossing_edges 85 = [0, 5, 8, 11]"
  by (simp add: crossing_edges_def upt_12 cube_topology_eq inside_def bit_Suc_0_iff)

lemma cell_size_unit:
  "cell_size ((Fin 0, Fin 0, Fin 0), (Fin 2, Fin 2, Fin 2)) 3 = (Fin 1, Fin 1, Fin 1)"
  by (simp add: cell_size_def jsub_def float_eval)

lemma float_cell_size_unit: "float_cell_size (Fin 0) (Fin 2) 3 = Fin 1"
  by (simp add: float_cell_size_def jsub_def float_eval)

lemma plane_samples:
  "map (corner_sample plane_field (Fin 0, py, pz) (Fin 1, sy, sz)) [0..<8] =
     [Fin (- (1 / 2)), Fin (1 / 2), Fin (- (1 / 2)), Fin (1 / 2),
      Fin (- (1 / 2)), Fin (1 / 2), Fin (- (1 / 2)), Fin (1 / 2)]"
  by (simp add: upt_8 corner_sample_def plane_field_def jsub_def bit_Suc_0_iff float_eval)

lemma plane_corner_mask:
  "corner_mask [Fin (- (1 / 2)), Fin (1 / 2), Fin (- (1 / 2)), Fin (1 / 2),
      Fin (- (1 / 2)), Fin (1 / 2), Fin (- (1 / 2)), Fin (1 / 2)] = 85"
  by (simp add: corner_mask_def upt_8)

lemma plane_rounded_mean:
  "rounded_mean [Fin (- (1 / 2)), Fin (1 / 2), Fin (- (1 / 2)), Fin (1 / 2),
      Fin (- (1 / 2)), Fin (1 / 2), Fin (- (1 / 2)), Fin (1 / 2)] 85 0 = Fin (1 / 2)"
  "rounded_mean [Fin (- (1 / 2)), Fin (1 / 2), Fin (- (1 / 2)), Fin (1 / 2),
      Fin (- (1 / 2)), Fin (1 / 2), Fin (- (1 / 2)), Fin (1 / 2)] 85 (Suc 0) = Fin (1 / 2)"
  "rounded_mean [Fin (- (1 / 2)), Fin (1 / 2), Fin (- (1 / 2)), Fin (1 / 2),
      Fin (- (1 / 2)), Fin (1 / 2), Fin (- (1 / 2)), Fin (1 / 2)] 85 2 = Fin (1 / 2)"
  by (simp_all add: rounded_mean_def float_sum_def crossing_edges_85 crossing_coord_def
        crossing_param_def cube_topology_eq corner_coord_def Let_def bit_Suc_0_iff jsub_def
        float_eval)

lemma tiny_mul:
  "jmul (Fin (- (1 / 2))) (Fin (1 / 2 ^ 200)) = Fin (- (1 / 2 ^ 201))"
  "jmul (Fin (1 / 2)) (Fin (1 / 2 ^ 200)) = Fin (1 / 2 ^ 201)"
proof -
  have a: "- (1 / 2) * (1 / 2 ^ 200) = real_of_int (- 1) / 2 ^ 201" by simp
  have b: "1 / 2 * (1 / 2 ^ 200) = real_of_int 1 / 2 ^ 201" by simp
  show "jmul (Fin (- (1 / 2))) (Fin (1 / 2 ^ 200)) = Fin (- (1 / 2 ^ 201))"
    unfolding jmul.simps a using d64r_dyadic [of "- 1" 201] by simp
  show "jmul (Fin (1 / 2)) (Fin (1 / 2 ^ 200)) = Fin (1 / 2 ^ 201)"
    unfolding jmul.simps b using d64r_dyadic [of 1 201] by simp
qed

lemma tiny_field_at:
  "tiny_field (Fin 0) y z = Fin (- (1 / 2 ^ 201))"
  "tiny_field (Fin 1) y z = Fin (1 / 2 ^ 201)"
proof -
  have "jsub (Fin 0) (Fin (1 / 2)) = Fin (- (1 / 2))" by (simp add: jsub_def float_eval)
  then show "tiny_field (Fin 0) y z = Fin (- (1 / 2 ^ 201))"
    unfolding tiny_field_def by (simp only: tiny_mul)
  have "jsub (Fin 1) (Fin (1 / 2)) = Fin (1 / 2)" by (simp add: jsub_def float_eval)
  then show "tiny_field (Fin 1) y z = Fin (1 / 2 ^ 201)"
    unfolding tiny_field_def by (simp only: tiny_mul)
qed

lemma tiny_fround:
  "fround (Fin (- (1 / 2 ^ 201))) = Fin 0" "fround (Fin (1 / 2 ^ 201)) = Fin 0"
proof -
  have p: "(2::real) powr (- 150) = 1 / 2 ^ 150"
    by (simp add: powr_minus_divide powr_realpow [symmetric])
  have "\<bar>1 / 2 ^ 201 :: real\<bar> < 2 powr (- 150)" unfolding p by simp
  moreover have "\<bar>- (1 / 2 ^ 201) :: real\<bar> < 2 powr (- 150)" unfolding p by simp
  ultimately show "fround (Fin (- (1 / 2 ^ 201))) = Fin 0" "fround (Fin (1 / 2 ^ 201)) = Fin 0"
    by (simp_all only: fround.simps f32r_underflow)
qed

lemma tiny_samples:
  "map (corner_sample tiny_field (Fin 0, Fin 0, Fin 0) (Fin 1, Fin 1, Fin 1)) [0..<8] =
     [Fin (- (1 / 2 ^ 201)), Fin (1 / 2 ^ 201), Fin (- (1 / 2 ^ 201)), Fin (1 / 2 ^ 201),
      Fin (- (1 / 2 ^ 201)), Fin (1 / 2 ^ 201), Fin (- (1 / 2 ^ 201)), Fin (1 / 2 ^ 201)]"
proof -
  have p: "jadd (Fin 0) (jmul (Fin 0) (Fin 1)) = Fin 0" "jadd (Fin 0) (jmul (Fin 1) (Fin 1)) = Fin 1"
    by (simp_all add: float_eval)
  show ?thesis
    by (simp add: upt_8 corner_sample_def bit_Suc_0_iff p tiny_field_at del: jadd.simps jmul.simps)
qed

lemma plane_cell_samples:
  "cell_samples plane_field ((Fin 0, Fin 0, Fin 0), (Fin 2, Fin 2, Fin 2)) 3 0 0 0 =
     [Fin (- (1 / 2)), Fin (1 / 2), Fin (- (1 / 2)), Fin (1 / 2),
      Fin (- (1 / 2)), Fin (1 / 2), Fin (- (1 / 2)), Fin (1 / 2)]"
proof -
  have p: "jadd (Fin 0) (jmul (Fin (real 0)) (Fin 1)) = Fin 0" by simp
  show ?thesis
    unfolding cell_samples_def float_cell_size_unit float_origin_def prod.case p
    by (rule plane_samples)
qed

lemma plane_mean_vertex:
  "mean_vertex plane_field ((Fin 0, Fin 0, Fin 0), (Fin 2, Fin 2, Fin 2)) 3 0 0 0 =
     (Fin (1 / 2), Fin (1 / 2), Fin (1 / 2))"
  by (simp add: mean_vertex_def plane_cell_samples plane_corner_mask float_eval
        plane_rounded_mean float_cell_size_unit float_origin_def Let_def)

theorem emitted_vertex_is_rounded_mean_of_crossings_witness:
  "0 < corner_mask (cell_samples plane_field
                      ((Fin 0, Fin 0, Fin 0), (Fin 2, Fin 2, Fin 2)) 3 0 0 0)
   \<and> corner_mask (cell_samples plane_field
                      ((Fin 0, Fin 0, Fin 0), (Fin 2, Fin 2, Fin 2)) 3 0 0 0) < 255
   \<and> vertices (cell new_SurfaceNets plane_field (Fin 0, Fin 0, Fin 0)
        (cell_size ((Fin 0, Fin 0, Fin 0), (Fin 2, Fin 2, Fin 2)) 3) 0 0 0
        \<lparr>vertices = [], faces = [], vertexBuffer = Map.empty, calls = 0\<rparr>)
     = [(Fin (1 / 2), Fin (1 / 2), Fin (1 / 2))]"
  using emitted_vertex_is_rounded_mean_of_crossings
    [of plane_field "((Fin 0, Fin 0, Fin 0), (Fin 2, Fin 2, Fin 2))" 3 0 0 0
        "\<lparr>vertices = [], faces = [], vertexBuffer = Map.empty, calls = 0\<rparr>"]
  by (simp add: plane_cell_samples plane_corner_mask plane_mean_vertex)

lemma tiny_cell_samples:
  "cell_samples tiny_field ((Fin 0, Fin 0, Fin 0), (Fin 2, Fin 2, Fin 2)) 3 0 0 0 =
     [Fin (- (1 / 2 ^ 201)), Fin (1 / 2 ^ 201), Fin (- (1 / 2 ^ 201)), Fin (1 / 2 ^ 201),
      Fin (- (1 / 2 ^ 201)), Fin (1 / 2 ^ 201), Fin (- (1 / 2 ^ 201)), Fin (1 / 2 ^ 201)]"
proof -
  have p: "jadd (Fin 0) (jmul (Fin (real 0)) (Fin 1)) = Fin 0" by simp
  show ?thesis
    unfolding cell_samples_def float_cell_size_unit float_origin_def prod.case p
    by (rule tiny_samples)
qed

lemma tiny_corner_mask:
  "corner_mask [Fin (- (1 / 2 ^ 201)), Fin (1 / 2 ^ 201), Fin (- (1 / 2 ^ 201)), Fin (1 / 2 ^ 201),
      Fin (- (1 / 2 ^ 201)), Fin (1 / 2 ^ 201), Fin (- (1 / 2 ^ 201)), Fin (1 / 2 ^ 201)] = 85"
  by (simp add: corner_mask_def upt_8)

lemma zero_rounded_mean:
  "rounded_mean [Fin 0, Fin 0, Fin 0, Fin 0, Fin 0, Fin 0, Fin 0, Fin 0] 85 0 = NaN"
  "rounded_mean [Fin 0, Fin 0, Fin 0, Fin 0, Fin 0, Fin 0, Fin 0, Fin 0] 85 (Suc 0) = Fin (1 / 2)"
  "rounded_mean [Fin 0, Fin 0, Fin 0, Fin 0, Fin 0, Fin 0, Fin 0, Fin 0] 85 2 = Fin (1 / 2)"
  by (simp_all add: rounded_mean_def float_sum_def crossing_edges_85 crossing_coord_def
        crossing_param_def cube_topology_eq corner_coord_def Let_def bit_Suc_0_iff jsub_def
        float_eval)

lemma tiny_mean_vertex:
  "mean_vertex tiny_field ((Fin 0, Fin 0, Fin 0), (Fin 2, Fin 2, Fin 2)) 3 0 0 0 =
     (NaN, Fin (1 / 2), Fin (1 / 2))"
  unfolding mean_vertex_def tiny_cell_samples tiny_corner_mask Let_def prod.case list.map
    tiny_fround
  by (simp add: float_eval zero_rounded_mean float_cell_size_unit float_origin_def)

lemma tiny_mean_crossing:
  assumes "j < 3"
  shows "mean_crossing [- (1 / 2 ^ 201), 1 / 2 ^ 201, - (1 / 2 ^ 201), 1 / 2 ^ 201,
                        - (1 / 2 ^ 201), 1 / 2 ^ 201, - (1 / 2 ^ 201), 1 / 2 ^ 201] 85 j = 1 / 2"
proof -
  have "j = 0 \<or> j = 1 \<or> j = 2" using assms by arith
  then show ?thesis
    by (elim disjE)
      (simp_all add: mean_crossing_def crossing_edges_85 crossing_point_def cube_topology_eq
          corner_coord_def Let_def bit_Suc_0_iff)
qed

text \<open>
  Claim C5 as stated fails on the field \<open>(x - 1/2) * 2 ^ -200\<close>, bounds \<open>[0, 2]\<^sup>3\<close> and
  resolution 3, in cell \<open>(0, 0, 0)\<close>: the 8 samples are \<open>\<plusminus> 2 ^ -201\<close>, the corner mask is
  \<open>0x55\<close>, and the mean of the crossing points lies at \<open>x = 1/2\<close>; but every sample is
  stored as zero in the \<open>Float32Array\<close>, \<open>t\<close> is \<open>0 / 0\<close>, and the vertex that is pushed
  has the x coordinate \<open>NaN\<close>.
\<close>

theorem emitted_vertex_not_mean_of_crossings:
  "cell_samples tiny_field ((Fin 0, Fin 0, Fin 0), (Fin 2, Fin 2, Fin 2)) 3 0 0 0 =
     map Fin [- (1 / 2 ^ 201), 1 / 2 ^ 201, - (1 / 2 ^ 201), 1 / 2 ^ 201,
              - (1 / 2 ^ 201), 1 / 2 ^ 201, - (1 / 2 ^ 201), 1 / 2 ^ 201]
   \<and> corner_mask (cell_samples tiny_field
                    ((Fin 0, Fin 0, Fin 0), (Fin 2, Fin 2, Fin 2)) 3 0 0 0) = 85
   \<and> cell_origin 0 2 3 0
       + mean_crossing [- (1 / 2 ^ 201), 1 / 2 ^ 201, - (1 / 2 ^ 201), 1 / 2 ^ 201,
                        - (1 / 2 ^ 201), 1 / 2 ^ 201, - (1 / 2 ^ 201), 1 / 2 ^ 201] 85 0
         * axis_cell_size 0 2 3 = 1 / 2
   \<and> vertices (cell new_SurfaceNets tiny_field (Fin 0, Fin 0, Fin 0)
        (cell_size ((Fin 0, Fin 0, Fin 0), (Fin 2, Fin 2, Fin 2)) 3) 0 0 0
        \<lparr>vertices = [], faces = [], vertexBuffer = Map.empty, calls = 0\<rparr>)
     = [(NaN, Fin (1 / 2), Fin (1 / 2))]"
proof -
  have m: "corner_mask (cell_samples tiny_field
                    ((Fin 0, Fin 0, Fin 0), (Fin 2, Fin 2, Fin 2)) 3 0 0 0) = 85"
    unfolding tiny_cell_samples by (rule tiny_corner_mask)
  have v: "vertices (cell new_SurfaceNets tiny_field (Fin 0, Fin 0, Fin 0)
        (cell_size ((Fin 0, Fin 0, Fin 0), (Fin 2, Fin 2, Fin 2)) 3) 0 0 0
        \<lparr>vertices = [], faces = [], vertexBuffer = Map.empty, calls = 0\<rparr>)
     = [(NaN, Fin (1 / 2), Fin (1 / 2))]"
    using cell_mean_vertex [of tiny_field "Fin 0" "Fin 0" "Fin 0" "Fin 2" "Fin 2" "Fin 2" 3 0 0 0
        "\<lparr>vertices = [], faces = [], vertexBuffer = Map.empty, calls = 0\<rparr>"]
    unfolding m tiny_mean_vertex by simp
  have w: "cell_origin 0 2 3 0
       + mean_crossing [- (1 / 2 ^ 201), 1 / 2 ^ 201, - (1 / 2 ^ 201), 1 / 2 ^ 201,
                        - (1 / 2 ^ 201), 1 / 2 ^ 201, - (1 / 2 ^ 201), 1 / 2 ^ 201] 85 0
         * axis_cell_size 0 2 3 = 1 / 2"
    by (simp only: tiny_mean_crossing [of 0] zero_less_numeral)
       (simp add: cell_origin_def axis_cell_size_def)
  show ?thesis
    unfolding m by (intro conjI refl v w) (simp only: tiny_cell_samples list.map)
qed

section \<open>A worked extraction\<close>

lemma edgeTable_85: "edgeTable new_SurfaceNets ! 85 = 2337"
proof -
  have "edge_mask_of init_cubeEdges 85 = 2337"
    by (simp add: init_cubeEdges_eq edge_mask_of_def cross_step_def upt_12 Let_def)
  then show ?thesis by (simp add: edgeTable_nth)
qed

lemma plane_grid:
  "map fround [Fin (- (1 / 2)), Fin (1 / 2), Fin (- (1 / 2)), Fin (1 / 2),
               Fin (- (1 / 2)), Fin (1 / 2), Fin (- (1 / 2)), Fin (1 / 2)] =
     [Fin (- (1 / 2)), Fin (1 / 2), Fin (- (1 / 2)), Fin (1 / 2),
      Fin (- (1 / 2)), Fin (1 / 2), Fin (- (1 / 2)), Fin (1 / 2)]"
  by (simp add: float_eval)

lemma plane_vertex:
  assumes "py = 0 \<or> py = 1" and "pz = 0 \<or> pz = 1"
  shows "cell_vertex new_SurfaceNets
           [Fin (- (1 / 2)), Fin (1 / 2), Fin (- (1 / 2)), Fin (1 / 2),
            Fin (- (1 / 2)), Fin (1 / 2), Fin (- (1 / 2)), Fin (1 / 2)] 2337
           (Fin 0, Fin py, Fin pz) (Fin 1, Fin 1, Fin 1) =
         (Fin (1 / 2), Fin (py + 1 / 2), Fin (pz + 1 / 2))"
proof -
  have "cell_vertex new_SurfaceNets
           [Fin (- (1 / 2)), Fin (1 / 2), Fin (- (1 / 2)), Fin (1 / 2),
            Fin (- (1 / 2)), Fin (1 / 2), Fin (- (1 / 2)), Fin (1 / 2)] 2337
           (Fin 0, Fin py, Fin pz) (Fin 1, Fin 1, Fin 1) =
         (jadd (Fin 0) (jmul (Fin (1 / 2)) (Fin 1)), jadd (Fin py) (jmul (Fin (1 / 2)) (Fin 1)),
          jadd (Fin pz) (jmul (Fin (1 / 2)) (Fin 1)))"
    using cell_vertex_eq [of 85 "[Fin (- (1 / 2)), Fin (1 / 2), Fin (- (1 / 2)), Fin (1 / 2),
            Fin (- (1 / 2)), Fin (1 / 2), Fin (- (1 / 2)), Fin (1 / 2)]"
            "Fin 0" "Fin py" "Fin pz" "Fin 1" "Fin 1" "Fin 1"]
    unfolding edgeTable_85 plane_rounded_mean [unfolded One_nat_def [symmetric]]
    by (simp del: jadd.simps jmul.simps)
  then show ?thesis using assms by (auto simp add: float_eval)
qed

lemma plane_cell_x0:
  assumes "y < 2" and "z < 2"
  shows "cell new_SurfaceNets plane_field (Fin 0, Fin 0, Fin 0) (Fin 1, Fin 1, Fin 1) z y 0
     \<lparr>vertices = vs, faces = fs, vertexBuffer = vb, calls = n\<rparr> =
   \<lparr>vertices = vs @ [(Fin (1 / 2), Fin (real y + 1 / 2), Fin (real z + 1 / 2))],
    faces = fs @ x_faces (vb(getKey 0 y z \<mapsto> length vs)) 2337 85 0 y z,
    vertexBuffer = vb(getKey 0 y z \<mapsto> length vs), calls = n + 8\<rparr>"
proof -
  have yz: "real y = 0 \<or> real y = 1" "real z = 0 \<or> real z = 1"
    using assms by auto
  have p: "jadd (Fin 0) (jmul (Fin (real 0)) (Fin 1)) = Fin 0"
    "jadd (Fin 0) (jmul (Fin (real y)) (Fin 1)) = Fin (real y)"
    "jadd (Fin 0) (jmul (Fin (real z)) (Fin 1)) = Fin (real z)"
    using yz by (auto simp add: float_eval)
  show ?thesis
    unfolding cell_eq Let_def p plane_samples plane_grid plane_corner_mask edgeTable_85
      plane_vertex [OF yz]
    by (simp add: y_faces_def z_faces_def)
qed

lemma plane_mask_x1:
  "corner_mask (map (corner_sample plane_field (Fin 1, py, pz) (Fin 1, sy, sz)) [0..<8]) = 0"
  by (simp add: corner_mask_def corner_sample_def plane_field_def jsub_def upt_8
        bit_Suc_0_iff float_eval)

lemma plane_cell_x1:
  "cell new_SurfaceNets plane_field (Fin 0, Fin 0, Fin 0) (Fin 1, Fin 1, Fin 1) z y 1 st =
     st\<lparr>calls := calls st + 8\<rparr>"
proof -
  have p: "jadd (Fin 0) (jmul (Fin (real 1)) (Fin 1)) = Fin 1" by (simp add: float_eval)
  show ?thesis
    unfolding cell_eq Let_def p plane_mask_x1 by simp
qed

lemma getKey_small:
  "getKey 0 0 0 = ''0,0,0''" "getKey 0 1 0 = ''0,1,0''"
  "getKey 0 0 1 = ''0,0,1''" "getKey 0 1 1 = ''0,1,1''"
  by code_simp+

lemma plane_row:
  assumes "y < 2" and "z < 2"
  shows "cell new_SurfaceNets plane_field (Fin 0, Fin 0, Fin 0) (Fin 1, Fin 1, Fin 1) z y 1
     (cell new_SurfaceNets plane_field (Fin 0, Fin 0, Fin 0) (Fin 1, Fin 1, Fin 1) z y 0
        \<lparr>vertices = vs, faces = fs, vertexBuffer = vb, calls = n\<rparr>) =
   \<lparr>vertices = vs @ [(Fin (1 / 2), Fin (real y + 1 / 2), Fin (real z + 1 / 2))],
    faces = fs @ x_faces (vb(getKey 0 y z \<mapsto> length vs)) 2337 85 0 y z,
    vertexBuffer = vb(getKey 0 y z \<mapsto> length vs), calls = n + 16\<rparr>"
  by (simp add: plane_cell_x0 [OF assms] plane_cell_x1 del: One_nat_def)

lemma plane_mesh:
  "extract_mesh new_SurfaceNets plane_field ((Fin 0, Fin 0, Fin 0), (Fin 2, Fin 2, Fin 2)) 3 =
     \<lparr>vertices = [(Fin (1 / 2), Fin (1 / 2), Fin (1 / 2)), (Fin (1 / 2), Fin (3 / 2), Fin (1 / 2)),
                  (Fin (1 / 2), Fin (1 / 2), Fin (3 / 2)), (Fin (1 / 2), Fin (3 / 2), Fin (3 / 2))],
      faces = [(3, 2, 0), (3, 0, 1)],
      vertexBuffer = Map.empty(''0,0,0'' \<mapsto> 0, ''0,1,0'' \<mapsto> 1, ''0,0,1'' \<mapsto> 2, ''0,1,1'' \<mapsto> 3),
      calls = 64\<rparr>"
proof -
  have x00: "x_faces vb 2337 85 0 0 z = []" "x_faces vb 2337 85 0 y 0 = []" for vb y z
    by (simp_all add: x_faces_def)
  have q: "x_faces (Map.empty(''0,0,0'' \<mapsto> 0, ''0,1,0'' \<mapsto> Suc 0,
                 ''0,0,1'' \<mapsto> Suc (Suc 0), ''0,1,1'' \<mapsto> Suc (Suc (Suc 0)))) 2337 85 0 1 1
           = [(3, 2, 0), (3, 0, 1)]"
    by (simp add: x_faces_def quad_def getKey_small numeral_2_eq_2 numeral_3_eq_3
          del: One_nat_def)
  have "extract_mesh new_SurfaceNets plane_field ((Fin 0, Fin 0, Fin 0), (Fin 2, Fin 2, Fin 2)) 3 =
    \<lparr>vertices = [(Fin (1 / 2), Fin (1 / 2), Fin (1 / 2)), (Fin (1 / 2), Fin (3 / 2), Fin (1 / 2)),
                  (Fin (1 / 2), Fin (1 / 2), Fin (3 / 2)), (Fin (1 / 2), Fin (3 / 2), Fin (3 / 2))],
     faces = x_faces (Map.empty(''0,0,0'' \<mapsto> 0, ''0,1,0'' \<mapsto> Suc 0,
                 ''0,0,1'' \<mapsto> Suc (Suc 0), ''0,1,1'' \<mapsto> Suc (Suc (Suc 0)))) 2337 85 0 1 1,
     vertexBuffer = Map.empty(''0,0,0'' \<mapsto> 0, ''0,1,0'' \<mapsto> Suc 0,
                 ''0,0,1'' \<mapsto> Suc (Suc 0), ''0,1,1'' \<mapsto> Suc (Suc (Suc 0))), calls = 64\<rparr>"
    unfolding extract_mesh_def Let_def cell_size_unit
    by (simp add: upt_2 plane_row x00 getKey_small del: One_nat_def)
  then show ?thesis
    unfolding q by (simp add: numeral_2_eq_2 numeral_3_eq_3)
qed

section \<open>Face indices\<close>

text \<open>
  Claim C10. Whatever the edge tables, the field, the bounds and the resolution, every
  triple in the faces list of the result holds three indices below the length of the
  vertices list of the result.
\<close>

theorem face_indices_in_range:
  "\<forall>f \<in> set (faces (extract_mesh sn densityFunc bounds res)).
     case f of (a, b, c) \<Rightarrow>
       a < length (vertices (extract_mesh sn densityFunc bounds res))
       \<and> b < length (vertices (extract_mesh sn densityFunc bounds res))
       \<and> c < length (vertices (extract_mesh sn densityFunc bounds res))"
proof
  fix f assume "f \<in> set (faces (extract_mesh sn densityFunc bounds res))"
  with extract_mesh_ok [of sn densityFunc bounds res]
  have "face_ok (length (vertices (extract_mesh sn densityFunc bounds res))) f"
    by (simp add: mesh_ok_def)
  then show "case f of (a, b, c) \<Rightarrow>
       a < length (vertices (extract_mesh sn densityFunc bounds res))
       \<and> b < length (vertices (extract_mesh sn densityFunc bounds res))
       \<and> c < length (vertices (extract_mesh sn densityFunc bounds res))"
    by (cases f) simp
qed

theorem face_indices_in_range_witness:
  "(3, 2, 0) \<in> set (faces (extract_mesh new_SurfaceNets plane_field
                           ((Fin 0, Fin 0, Fin 0), (Fin 2, Fin 2, Fin 2)) 3))
   \<and> 3 < length (vertices (extract_mesh new_SurfaceNets plane_field
                           ((Fin 0, Fin 0, Fin 0), (Fin 2, Fin 2, Fin 2)) 3))
   \<and> 2 < length (vertices (extract_mesh new_SurfaceNets plane_field
                           ((Fin 0, Fin 0, Fin 0), (Fin 2, Fin 2, Fin 2)) 3))
   \<and> 0 < length (vertices (extract_mesh new_SurfaceNets plane_field
                           ((Fin 0, Fin 0, Fin 0), (Fin 2, Fin 2, Fin 2)) 3))"
proof -
  have m: "(3, 2, 0) \<in> set (faces (extract_mesh new_SurfaceNets plane_field
                           ((Fin 0, Fin 0, Fin 0), (Fin 2, Fin 2, Fin 2)) 3))"
    by (simp add: plane_mesh)
  from face_indices_in_range [THEN bspec, OF m] m show ?thesis by simp
qed

section \<open>Missing neighbours\<close>

lemma x_faces_missing:
  assumes "vb (getKey x y z) = None \<or> vb (getKey x (y - 1) z) = None
           \<or> vb (getKey x (y - 1) (z - 1)) = None \<or> vb (getKey x y (z - 1)) = None"
  shows "x_faces vb em cm x y z = []"
  using quad_missing [OF assms] by (simp add: x_faces_def)

lemma y_faces_missing:
  assumes "vb (getKey x y z) = None \<or> vb (getKey x y (z - 1)) = None
           \<or> vb (getKey (x - 1) y (z - 1)) = None \<or> vb (getKey (x - 1) y z) = None"
  shows "y_faces vb em cm x y z = []"
  using quad_missing [OF assms] by (simp add: y_faces_def)

lemma z_faces_missing:
  assumes "vb (getKey x y z) = None \<or> vb (getKey (x - 1) y z) = None
           \<or> vb (getKey (x - 1) (y - 1) z) = None \<or> vb (getKey x (y - 1) z) = None"
  shows "z_faces vb em cm x y z = []"
  using quad_missing [OF assms] by (simp add: z_faces_def)

text \<open>
  Claim C7. In each of the three stitching directions, when one of the four lookups in
  the vertex buffer finds no vertex, no face is pushed for that edge. Nothing is raised:
  the cell completes (its 8 samples are counted) and the march visits every cell.
\<close>

theorem missing_vertex_skips_quad:
  "(vb (getKey x y z) = None \<or> vb (getKey x (y - 1) z) = None
      \<or> vb (getKey x (y - 1) (z - 1)) = None \<or> vb (getKey x y (z - 1)) = None
      \<longrightarrow> x_faces vb em cm x y z = [])
   \<and> (vb (getKey x y z) = None \<or> vb (getKey x y (z - 1)) = None
      \<or> vb (getKey (x - 1) y (z - 1)) = None \<or> vb (getKey (x - 1) y z) = None
      \<longrightarrow> y_faces vb em cm x y z = [])
   \<and> (vb (getKey x y z) = None \<or> vb (getKey (x - 1) y z) = None
      \<or> vb (getKey (x - 1) (y - 1) z) = None \<or> vb (getKey x (y - 1) z) = None
      \<longrightarrow> z_faces vb em cm x y z = [])
   \<and> calls (cell sn densityFunc b0 scale z y x st) = calls st + 8
   \<and> calls (extract_mesh sn densityFunc bounds res) = 8 * nat (res - 1) ^ 3"
  using x_faces_missing [of vb x y z em cm] y_faces_missing [of vb x y z em cm]
    z_faces_missing [of vb x y z em cm]
  by (simp only: cell_calls extract_mesh_calls) blast

lemma getKey_ones:
  "getKey 1 1 1 = ''1,1,1''" "getKey 1 0 1 = ''1,0,1''" "getKey 1 1 0 = ''1,1,0''"
  "getKey 0 1 1 = ''0,1,1''"
  by code_simp+

theorem missing_vertex_skips_quad_witness:
  "(Map.empty(getKey 1 1 1 \<mapsto> 0)) (getKey 1 0 1) = None
   \<and> (Map.empty(getKey 1 1 1 \<mapsto> 0)) (getKey 1 1 0) = None
   \<and> (Map.empty(getKey 1 1 1 \<mapsto> 0)) (getKey 0 1 1) = None
   \<and> x_faces (Map.empty(getKey 1 1 1 \<mapsto> 0)) 7 1 1 1 1 = []
   \<and> y_faces (Map.empty(getKey 1 1 1 \<mapsto> 0)) 7 1 1 1 1 = []
   \<and> z_faces (Map.empty(getKey 1 1 1 \<mapsto> 0)) 7 1 1 1 1 = []"
  using missing_vertex_skips_quad [of "Map.empty(getKey 1 1 1 \<mapsto> 0)" 1 1 1 7 1]
  by (simp add: getKey_ones del: One_nat_def)

section \<open>The signed distance function\<close>

subsection \<open>NaN propagates\<close>

lemma jadd_NaN [simp]: "jadd v NaN = NaN" "jadd NaN v = NaN"
  by (cases v; simp)+

lemma jmul_NaN [simp]: "jmul v NaN = NaN" "jmul NaN v = NaN"
  by (cases v; simp)+

lemma jsub_NaN [simp]: "jsub v NaN = NaN" "jsub NaN v = NaN"
  by (simp_all add: jsub_def)

lemma jmin_NaN [simp]: "jmin NaN v = NaN" "jmin v NaN = NaN"
  by (simp_all add: jmin_def)

lemma jmax_NaN [simp]: "jmax NaN v = NaN" "jmax v NaN = NaN"
  by (simp_all add: jmax_def)

lemma fade_NaN: "fade NaN = NaN"
  by (simp add: fade_def)

lemma lerp_NaN: "lerp NaN b t = NaN"
  by (simp add: lerp_def)

lemma grad_NaN: "grad h NaN NaN NaN = NaN"
  by (simp add: grad_def Let_def)

lemma noise3D_NaN: "noise3D pm NaN NaN NaN = NaN"
  by (simp add: noise3D_def Let_def grad_NaN lerp_NaN)

lemma jsub_self: "jsub v v = Fin 0 \<or> jsub v v = NaN"
  by (cases v) (simp_all add: jsub_def)

lemma square_sum_zero:
  assumes "a = Fin 0 \<or> a = NaN" and "b = Fin 0 \<or> b = NaN" and "c = Fin 0 \<or> c = NaN"
  shows "jsqrt (jadd (jadd (jmul a a) (jmul b b)) (jmul c c)) = Fin 0
         \<or> jsqrt (jadd (jadd (jmul a a) (jmul b b)) (jmul c c)) = NaN"
  using assms by auto

lemma jdiv_zero_zero:
  assumes "a = Fin 0 \<or> a = NaN" and "d = Fin 0 \<or> d = NaN"
  shows "jdiv a d = NaN"
  using assms by auto

lemma direction_at_center:
  "direction pl (fst (center pl)) (fst (snd (center pl))) (snd (snd (center pl))) = (NaN, NaN, NaN)"
proof -
  obtain cx cy cz where c: "center pl = (cx, cy, cz)" by (cases "center pl") auto
  let ?d = "jsqrt (jadd (jadd (jmul (jsub cx cx) (jsub cx cx)) (jmul (jsub cy cy) (jsub cy cy)))
                    (jmul (jsub cz cz) (jsub cz cz)))"
  have d: "?d = Fin 0 \<or> ?d = NaN"
    by (rule square_sum_zero) (rule jsub_self)+
  have "jdiv (jsub cx cx) ?d = NaN" "jdiv (jsub cy cy) ?d = NaN" "jdiv (jsub cz cz) ?d = NaN"
    by (rule jdiv_zero_zero [OF jsub_self d])+
  then show ?thesis by (simp add: direction_def c Let_def)
qed

lemma terrain_at_center:
  "terrain pl (fst (center pl)) (fst (snd (center pl))) (snd (snd (center pl))) = NaN"
proof -
  obtain cx cy cz where c: "center pl = (cx, cy, cz)" by (cases "center pl") auto
  have d: "direction pl cx cy cz = (NaN, NaN, NaN)"
    using direction_at_center [of pl] by (simp add: c)
  show ?thesis
    by (simp add: terrain_def c d Let_def noise3D_NaN)
qed

lemma apply_mods_NaN: "apply_mods x y z NaN mds = NaN"
  by (induction mds) (simp_all add: apply_mod_def)

lemma sdf_at_center:
  "sdf pl (fst (center pl)) (fst (snd (center pl))) (snd (snd (center pl))) = NaN"
  by (simp add: sdf_def terrain_at_center apply_mods_NaN)

subsection \<open>The loop over the modifications is the fold of the specification\<close>

lemma jmin_num_min: "jmin a b = num_min a b"
  by (cases a; cases b) (simp_all add: jmin_def min_def)

lemma jmax_num_max: "jmax a b = num_max a b"
  by (cases a; cases b) (simp_all add: jmax_def max_def)

lemma modDist_sphere_distance:
  "modDist md x y z = sphere_distance (mod_position md) (mod_radius md) (x, y, z)"
  by (cases "mod_position md")
     (simp add: modDist_def sphere_distance_def euclid_def square_def Let_def)

lemma apply_mod_csg_step: "apply_mod x y z d md = csg_step (x, y, z) d (as_spec md)"
  by (simp add: apply_mod_def as_spec_def jmin_num_min jmax_num_max modDist_sphere_distance)

lemma apply_mods_foldl:
  "apply_mods x y z d mds = csg_fold (x, y, z) d (map as_spec mds)"
  by (induction mds arbitrary: d) (simp_all add: csg_fold_def apply_mod_csg_step)

lemma apply_mods_append:
  "apply_mods x y z d (mds @ [md]) = apply_mod x y z (apply_mods x y z d mds) md"
  by (induction mds arbitrary: d) simp_all

lemma terrain_modifications:
  "terrain (pl\<lparr>modifications := ms\<rparr>) x y z = terrain pl x y z"
  by (simp add: terrain_def direction_def)

lemma sdf_place:
  "sdf (place pl position r) x y z =
     num_min (sdf pl x y z)
       (sphere_distance position (case r of None \<Rightarrow> Fin 2 | Some v \<Rightarrow> v) (x, y, z))"
  by (simp add: sdf_def place_def apply_mods_append apply_mod_csg_step as_spec_def
        terrain_modifications)

lemma sdf_mine:
  "sdf (mine pl position r) x y z =
     num_max (sdf pl x y z)
       (jneg (sphere_distance position (case r of None \<Rightarrow> Fin 2 | Some v \<Rightarrow> v) (x, y, z)))"
  by (simp add: sdf_def mine_def apply_mods_append apply_mod_csg_step as_spec_def
        terrain_modifications)

text \<open>
  Claim C2. The value of \<open>sdf\<close> is the left fold, in list order, of the modifications
  over the noise-modified base distance, which does not depend on the list: \<open>min\<close> with
  the distance to the sphere (Euclidean distance to the centre minus the radius) for an
  Add, \<open>max\<close> with the negated distance for a Subtract. The list is in insertion order:
  \<open>place\<close> appends an Add and \<open>mine\<close> a Subtract at the end, and the modification
  pushed is applied last, to the value of \<open>sdf\<close> before the push.
\<close>

theorem sdf_is_fold_of_modifications:
  "sdf pl x y z = csg_fold (x, y, z) (terrain pl x y z) (map as_spec (modifications pl))
   \<and> terrain (pl\<lparr>modifications := ms\<rparr>) x y z = terrain pl x y z
   \<and> map as_spec (modifications (place pl position r)) =
       map as_spec (modifications pl)
         @ [(position, (case r of None \<Rightarrow> Fin 2 | Some v \<Rightarrow> v), Add)]
   \<and> map as_spec (modifications (mine pl position r)) =
       map as_spec (modifications pl)
         @ [(position, (case r of None \<Rightarrow> Fin 2 | Some v \<Rightarrow> v), Subtract)]
   \<and> sdf (place pl position r) x y z =
       num_min (sdf pl x y z)
         (sphere_distance position (case r of None \<Rightarrow> Fin 2 | Some v \<Rightarrow> v) (x, y, z))
   \<and> sdf (mine pl position r) x y z =
       num_max (sdf pl x y z)
         (jneg (sphere_distance position (case r of None \<Rightarrow> Fin 2 | Some v \<Rightarrow> v)
                  (x, y, z)))"
proof (intro conjI)
  show "sdf pl x y z = csg_fold (x, y, z) (terrain pl x y z) (map as_spec (modifications pl))"
    by (simp add: sdf_def apply_mods_foldl)
  show "terrain (pl\<lparr>modifications := ms\<rparr>) x y z = terrain pl x y z"
    by (rule terrain_modifications)
  show "map as_spec (modifications (place pl position r)) =
       map as_spec (modifications pl)
         @ [(position, (case r of None \<Rightarrow> Fin 2 | Some v \<Rightarrow> v), Add)]"
    by (simp add: place_def as_spec_def)
  show "map as_spec (modifications (mine pl position r)) =
       map as_spec (modifications pl)
         @ [(position, (case r of None \<Rightarrow> Fin 2 | Some v \<Rightarrow> v), Subtract)]"
    by (simp add: mine_def as_spec_def)
  show "sdf (place pl position r) x y z =
       num_min (sdf pl x y z)
         (sphere_distance position (case r of None \<Rightarrow> Fin 2 | Some v \<Rightarrow> v) (x, y, z))"
    by (rule sdf_place)
  show "sdf (mine pl position r) x y z =
       num_max (sdf pl x y z)
         (jneg (sphere_distance position (case r of None \<Rightarrow> Fin 2 | Some v \<Rightarrow> v)
                  (x, y, z)))"
    by (rule sdf_mine)
qed

text \<open>
  The fold on two modifications at the point \<open>(10, 4, 3)\<close> with base distance 5: an Add
  of radius 3 at \<open>(10, 0, 0)\<close>, at distance \<open>5 - 3\<close>, and a Subtract of radius 4 at the
  point itself. The order matters, and the loop of the code gives the same value.
\<close>

lemma sqrt_25: "sqrt 25 = 5"
  by (rule real_sqrt_unique) simp_all

lemma sphere_distance_example:
  "sphere_distance (Fin 10, Fin 0, Fin 0) (Fin 3) (Fin 10, Fin 4, Fin 3) = Fin 2"
  "sphere_distance (Fin 10, Fin 4, Fin 3) (Fin 4) (Fin 10, Fin 4, Fin 3) = Fin (- 4)"
  by (simp_all add: sphere_distance_def euclid_def square_def jsub_def float_eval sqrt_25)

lemma csg_fold_example:
  "csg_fold (Fin 10, Fin 4, Fin 3) (Fin 5)
     [((Fin 10, Fin 0, Fin 0), Fin 3, Add), ((Fin 10, Fin 4, Fin 3), Fin 4, Subtract)] = Fin 4"
  "csg_fold (Fin 10, Fin 4, Fin 3) (Fin 5)
     [((Fin 10, Fin 4, Fin 3), Fin 4, Subtract), ((Fin 10, Fin 0, Fin 0), Fin 3, Add)] = Fin 2"
  by (simp_all add: csg_fold_def sphere_distance_example)

lemma apply_mods_example:
  "apply_mods (Fin 10) (Fin 4) (Fin 3) (Fin 5)
     [\<lparr>mod_position = (Fin 10, Fin 0, Fin 0), mod_radius = Fin 3, mod_add = True\<rparr>,
      \<lparr>mod_position = (Fin 10, Fin 4, Fin 3), mod_radius = Fin 4, mod_add = False\<rparr>] = Fin 4"
  by (simp add: apply_mod_def modDist_def jmin_def jmax_def jsub_def float_eval sqrt_25)

subsection \<open>Monotonicity of the two edits\<close>

lemma num_min_not_greater: "\<not> jlt d (num_min d m)"
  by (cases d; cases m) simp_all

lemma num_max_not_less: "\<not> jlt (num_max d m) d"
  by (cases d; cases m) simp_all

lemma num_min_le: "jle (num_min d m) d \<longleftrightarrow> num_min d m \<noteq> NaN"
  by (cases d; cases m) simp_all

lemma num_max_ge: "jle d (num_max d m) \<longleftrightarrow> num_max d m \<noteq> NaN"
  by (cases d; cases m) simp_all

text \<open>
  Claim C3 as stated (after \<open>place\<close>, \<open>sdf\<close> is less than or equal to \<open>sdf\<close> before, for
  every point) fails at the centre of the planet of radius 10 centred at the origin, for
  a sphere placed at that centre: both values are \<open>NaN\<close>, and \<open>NaN <= NaN\<close> is false.
\<close>

theorem place_not_le_at_center:
  "\<not> jle (sdf (place (new_TinyPlanet (Fin 0, Fin 0, Fin 0) (Fin 10) 64)
                    (Fin 0, Fin 0, Fin 0) None) (Fin 0) (Fin 0) (Fin 0))
           (sdf (new_TinyPlanet (Fin 0, Fin 0, Fin 0) (Fin 10) 64) (Fin 0) (Fin 0) (Fin 0))"
proof -
  have "sdf (new_TinyPlanet (Fin 0, Fin 0, Fin 0) (Fin 10) 64) (Fin 0) (Fin 0) (Fin 0) = NaN"
    using sdf_at_center [of "new_TinyPlanet (Fin 0, Fin 0, Fin 0) (Fin 10) 64"]
    by (simp add: new_TinyPlanet_def)
  then show ?thesis by (cases "sdf (place (new_TinyPlanet (Fin 0, Fin 0, Fin 0) (Fin 10) 64)
                    (Fin 0, Fin 0, Fin 0) None) (Fin 0) (Fin 0) (Fin 0)") simp_all
qed

text \<open>
  Claim C3, as amended. At every point, the signed distance after \<open>place\<close> is never
  greater than before, and it is less than or equal to the distance before exactly where
  it is a number (not \<open>NaN\<close>); the signed distance after \<open>mine\<close> is never smaller than
  before (at every point, in particular outside the removal sphere), and it is greater
  than or equal to the distance before exactly where it is a number.
\<close>

theorem place_never_raises_mine_never_lowers:
  "\<not> jlt (sdf pl x y z) (sdf (place pl position r) x y z)
   \<and> (jle (sdf (place pl position r) x y z) (sdf pl x y z)
        \<longleftrightarrow> sdf (place pl position r) x y z \<noteq> NaN)
   \<and> \<not> jlt (sdf (mine pl position r) x y z) (sdf pl x y z)
   \<and> (jle (sdf pl x y z) (sdf (mine pl position r) x y z)
        \<longleftrightarrow> sdf (mine pl position r) x y z \<noteq> NaN)"
  unfolding sdf_place sdf_mine
  by (intro conjI num_min_not_greater num_max_not_less num_min_le num_max_ge)

subsection \<open>The centre of the planet\<close>

text \<open>
  Claim C9, as amended. \<open>sdf\<close> does not guard the normalisation: at the exact centre
  every component of the direction is \<open>0 / 0\<close>, that is \<open>NaN\<close>, the noise layers and the
  loop over the modifications propagate it, and the evaluation returns \<open>NaN\<close>, for every
  planet and every modification list.
\<close>

theorem sdf_at_center_is_NaN:
  "direction pl (fst (center pl)) (fst (snd (center pl))) (snd (snd (center pl)))
     = (NaN, NaN, NaN)
   \<and> sdf pl (fst (center pl)) (fst (snd (center pl))) (snd (snd (center pl))) = NaN"
  by (simp only: direction_at_center sdf_at_center)

text \<open>
  Claim C9 as stated (a finite value at the centre) fails for the planet of radius 10
  centred at the origin.
\<close>

theorem sdf_at_center_not_finite:
  "sdf (new_TinyPlanet (Fin 0, Fin 0, Fin 0) (Fin 10) 64) (Fin 0) (Fin 0) (Fin 0) = NaN"
  using sdf_at_center [of "new_TinyPlanet (Fin 0, Fin 0, Fin 0) (Fin 10) 64"]
  by (simp add: new_TinyPlanet_def)

end
